theory Spec2Isabelle
  imports Complex_Main
begin

section \<open>Rate limiters of the URL shortener\<close>

text \<open>
  The repository holds four classes named \<open>RateLimiter\<close>: the sliding window of
  \<open>solution.py\<close> (a deque of timestamps per key, method \<open>is_allowed\<close>) and the three
  reference strategies \<open>reference/fixed_window.py\<close>, \<open>reference/sliding_window.py\<close> and
  \<open>reference/token_bucket.py\<close> (method \<open>allow_request\<close>). Their definitions carry the
  prefixes \<open>sol\<close>, \<open>fw\<close>, \<open>sw\<close> and \<open>tb\<close>.

  Every method reads \<open>time.time()\<close> once; here the reading is the argument \<open>now\<close>.
  Timestamps and token counts are real numbers with exact arithmetic, capacities are
  integers. The doubles of the code are among the reals; where a property depends on the
  rounding of an operation on doubles, the operation is a parameter of the definition
  (the cutoff of the sliding windows, below). The lock of each class serialises the
  calls; the model is the sequential behaviour of one call after another. A raised
  exception is the left injection of a sum.
\<close>

datatype py_error = ZeroDivisionError

subsection \<open>solution.py\<close>

record sol_limiter =
  max_requests :: int
  time_window :: real
  requests :: "string \<rightharpoonup> real list"

definition sol_init :: "int \<Rightarrow> real \<Rightarrow> py_error + sol_limiter" where
  "sol_init mr tw = Inr \<lparr>max_requests = mr, time_window = tw, requests = Map.empty\<rparr>"

text \<open>The loop \<open>while request_times and request_times[0] <= cutoff_time: popleft()\<close>.\<close>

fun popleft_old :: "real \<Rightarrow> real list \<Rightarrow> real list" where
  "popleft_old cutoff_time [] = []"
| "popleft_old cutoff_time (ts # request_times) =
     (if ts \<le> cutoff_time then popleft_old cutoff_time request_times
      else ts # request_times)"

text \<open>\<open>self.requests[key]\<close> on a \<open>defaultdict(deque)\<close>: a missing key reads as the empty deque
  (and is stored by the read).\<close>

definition sol_lookup :: "sol_limiter \<Rightarrow> string \<Rightarrow> real list" where
  "sol_lookup l key = (case requests l key of None \<Rightarrow> [] | Some request_times \<Rightarrow> request_times)"

definition sol_is_allowed :: "sol_limiter \<Rightarrow> string \<Rightarrow> real \<Rightarrow> bool \<times> sol_limiter" where
  "sol_is_allowed l key current_time =
     (let cutoff_time = current_time - time_window l;
          request_times = popleft_old cutoff_time (sol_lookup l key)
      in if int (length request_times) < max_requests l
         then (True, l\<lparr>requests := (requests l)(key \<mapsto> request_times @ [current_time])\<rparr>)
         else (False, l\<lparr>requests := (requests l)(key \<mapsto> request_times)\<rparr>))"

definition sol_reset :: "sol_limiter \<Rightarrow> string option \<Rightarrow> sol_limiter" where
  "sol_reset l key =
     (case key of
        None \<Rightarrow> l\<lparr>requests := Map.empty\<rparr>
      | Some k \<Rightarrow> (if k \<in> dom (requests l) then l\<lparr>requests := (requests l)(k \<mapsto> [])\<rparr> else l))"

subsection \<open>reference/fixed_window.py\<close>

record fw_entry =
  window_start :: real
  count :: int

record fw_limiter =
  fw_limit :: int
  fw_window :: real
  windows :: "string \<rightharpoonup> fw_entry"

definition fw_init :: "int \<Rightarrow> real \<Rightarrow> py_error + fw_limiter" where
  "fw_init limit window = Inr \<lparr>fw_limit = limit, fw_window = window, windows = Map.empty\<rparr>"

text \<open>Python's \<open>int(x)\<close> on a float truncates towards zero.\<close>

definition py_int :: "real \<Rightarrow> int" where
  "py_int x = (if 0 \<le> x then \<lfloor>x\<rfloor> else \<lceil>x\<rceil>)"

definition fw_allow_request :: "fw_limiter \<Rightarrow> string \<Rightarrow> real \<Rightarrow> py_error + bool \<times> fw_limiter" where
  "fw_allow_request l user_id now =
     (if fw_window l = 0 then Inl ZeroDivisionError
      else
        let ws = real_of_int (py_int (now / fw_window l)) * fw_window l;
            user_window = (case windows l user_id of
                             None \<Rightarrow> \<lparr>window_start = ws, count = 0\<rparr>
                           | Some e \<Rightarrow> e);
            user_window = (if ws > window_start user_window
                           then \<lparr>window_start = ws, count = 0\<rparr> else user_window)
        in if count user_window < fw_limit l
           then Inr (True, l\<lparr>windows := (windows l)(user_id \<mapsto> user_window\<lparr>count := count user_window + 1\<rparr>)\<rparr>)
           else Inr (False, l\<lparr>windows := (windows l)(user_id \<mapsto> user_window)\<rparr>))"

definition fw_reset :: "fw_limiter \<Rightarrow> string \<Rightarrow> fw_limiter" where
  "fw_reset l user_id =
     (if user_id \<in> dom (windows l) then l\<lparr>windows := (windows l)(user_id := None)\<rparr> else l)"

subsection \<open>reference/sliding_window.py\<close>

record sw_limiter =
  sw_limit :: int
  sw_window :: real
  sw_requests :: "string \<rightharpoonup> real list"

definition sw_init :: "int \<Rightarrow> real \<Rightarrow> py_error + sw_limiter" where
  "sw_init limit window = Inr \<lparr>sw_limit = limit, sw_window = window, sw_requests = Map.empty\<rparr>"

definition sw_allow_request :: "sw_limiter \<Rightarrow> string \<Rightarrow> real \<Rightarrow> bool \<times> sw_limiter" where
  "sw_allow_request l user_id now =
     (let stored = (case sw_requests l user_id of None \<Rightarrow> [] | Some tss \<Rightarrow> tss);
          cutoff = now - sw_window l;
          kept = filter (\<lambda>ts. ts > cutoff) stored
      in if int (length kept) < sw_limit l
         then (True, l\<lparr>sw_requests := (sw_requests l)(user_id \<mapsto> kept @ [now])\<rparr>)
         else (False, l\<lparr>sw_requests := (sw_requests l)(user_id \<mapsto> kept)\<rparr>))"

definition sw_reset :: "sw_limiter \<Rightarrow> string \<Rightarrow> sw_limiter" where
  "sw_reset l user_id =
     (if user_id \<in> dom (sw_requests l) then l\<lparr>sw_requests := (sw_requests l)(user_id := None)\<rparr> else l)"

subsection \<open>reference/token_bucket.py\<close>

record tb_bucket =
  tokens :: real
  last_update :: real

record tb_limiter =
  tb_limit :: int
  tb_window :: real
  tb_rate :: real
  buckets :: "string \<rightharpoonup> tb_bucket"

text \<open>The constructor computes \<open>limit / window\<close>, which raises when the window is zero.\<close>

definition tb_init :: "int \<Rightarrow> real \<Rightarrow> py_error + tb_limiter" where
  "tb_init limit window =
     (if window = 0 then Inl ZeroDivisionError
      else Inr \<lparr>tb_limit = limit, tb_window = window,
                tb_rate = real_of_int limit / window, buckets = Map.empty\<rparr>)"

text \<open>The refill of \<open>allow_request\<close>, up to the point where a token is taken.\<close>

definition tb_refill :: "tb_limiter \<Rightarrow> string \<Rightarrow> real \<Rightarrow> tb_bucket" where
  "tb_refill l user_id now =
     (let bucket = (case buckets l user_id of
                      None \<Rightarrow> \<lparr>tokens = real_of_int (tb_limit l), last_update = now\<rparr>
                    | Some b \<Rightarrow> b);
          elapsed = now - last_update bucket
      in \<lparr>tokens = min (real_of_int (tb_limit l)) (tokens bucket + elapsed * tb_rate l),
          last_update = now\<rparr>)"

definition tb_allow_request :: "tb_limiter \<Rightarrow> string \<Rightarrow> real \<Rightarrow> bool \<times> tb_limiter" where
  "tb_allow_request l user_id now =
     (let bucket = tb_refill l user_id now
      in if tokens bucket \<ge> 1
         then (True, l\<lparr>buckets := (buckets l)(user_id \<mapsto> bucket\<lparr>tokens := tokens bucket - 1\<rparr>)\<rparr>)
         else (False, l\<lparr>buckets := (buckets l)(user_id \<mapsto> bucket)\<rparr>))"

definition tb_reset :: "tb_limiter \<Rightarrow> string \<Rightarrow> tb_limiter" where
  "tb_reset l user_id =
     (if user_id \<in> dom (buckets l) then l\<lparr>buckets := (buckets l)(user_id := None)\<rparr> else l)"

subsection \<open>Sequences of calls\<close>

text \<open>
  A caller issues one call after another, each at its own clock reading. The traces below
  run a list of \<open>(key, time)\<close> calls from a limiter and collect the answers in order.
\<close>

fun sol_trace :: "sol_limiter \<Rightarrow> (string \<times> real) list \<Rightarrow> bool list" where
  "sol_trace l [] = []"
| "sol_trace l ((key, t) # calls) =
     fst (sol_is_allowed l key t) # sol_trace (snd (sol_is_allowed l key t)) calls"

fun sw_trace :: "sw_limiter \<Rightarrow> (string \<times> real) list \<Rightarrow> bool list" where
  "sw_trace l [] = []"
| "sw_trace l ((key, t) # calls) =
     fst (sw_allow_request l key t) # sw_trace (snd (sw_allow_request l key t)) calls"

fun tb_trace :: "tb_limiter \<Rightarrow> (string \<times> real) list \<Rightarrow> bool list" where
  "tb_trace l [] = []"
| "tb_trace l ((key, t) # calls) =
     fst (tb_allow_request l key t) # tb_trace (snd (tb_allow_request l key t)) calls"

text \<open>The limiter the token bucket is left with after a list of calls.\<close>

fun tb_run :: "tb_limiter \<Rightarrow> (string \<times> real) list \<Rightarrow> tb_limiter" where
  "tb_run l [] = l"
| "tb_run l ((key, t) # calls) = tb_run (snd (tb_allow_request l key t)) calls"

text \<open>A call of the fixed window that raises leaves the limiter as it was.\<close>

definition fw_answer :: "fw_limiter \<Rightarrow> string \<Rightarrow> real \<Rightarrow> py_error + bool" where
  "fw_answer l key t = (case fw_allow_request l key t of Inl e \<Rightarrow> Inl e | Inr (r, l') \<Rightarrow> Inr r)"

definition fw_after :: "fw_limiter \<Rightarrow> string \<Rightarrow> real \<Rightarrow> fw_limiter" where
  "fw_after l key t = (case fw_allow_request l key t of Inl e \<Rightarrow> l | Inr (r, l') \<Rightarrow> l')"

fun fw_trace :: "fw_limiter \<Rightarrow> (string \<times> real) list \<Rightarrow> (py_error + bool) list" where
  "fw_trace l [] = []"
| "fw_trace l ((key, t) # calls) =
     (case fw_allow_request l key t of
        Inl e \<Rightarrow> Inl e # fw_trace l calls
      | Inr (r, l') \<Rightarrow> Inr r # fw_trace l' calls)"

text \<open>The times of the calls of one key that were admitted, and how many of a list of
  times lie in the trailing interval \<open>(t - w, t]\<close>.\<close>

definition admitted :: "string \<Rightarrow> (string \<times> real) list \<Rightarrow> bool list \<Rightarrow> real list" where
  "admitted key calls results =
     map (snd \<circ> fst) (filter (\<lambda>((k, t), r). k = key \<and> r) (zip calls results))"

definition count_within :: "real \<Rightarrow> real \<Rightarrow> real list \<Rightarrow> nat" where
  "count_within w t tss = length (filter (\<lambda>u. t - w < u \<and> u \<le> t) tss)"

text \<open>Operations of a controller: calls and resets, in any order.\<close>

datatype sol_op = IsAllowed string real | Reset "string option"

datatype ref_op = AllowRequest string real | ResetUser string

fun sol_exec :: "sol_limiter \<Rightarrow> sol_op list \<Rightarrow> bool list" where
  "sol_exec l [] = []"
| "sol_exec l (IsAllowed key t # ops) =
     fst (sol_is_allowed l key t) # sol_exec (snd (sol_is_allowed l key t)) ops"
| "sol_exec l (Reset key # ops) = sol_exec (sol_reset l key) ops"

fun sw_exec :: "sw_limiter \<Rightarrow> ref_op list \<Rightarrow> bool list" where
  "sw_exec l [] = []"
| "sw_exec l (AllowRequest key t # ops) =
     fst (sw_allow_request l key t) # sw_exec (snd (sw_allow_request l key t)) ops"
| "sw_exec l (ResetUser key # ops) = sw_exec (sw_reset l key) ops"

fun tb_exec :: "tb_limiter \<Rightarrow> ref_op list \<Rightarrow> bool list" where
  "tb_exec l [] = []"
| "tb_exec l (AllowRequest key t # ops) =
     fst (tb_allow_request l key t) # tb_exec (snd (tb_allow_request l key t)) ops"
| "tb_exec l (ResetUser key # ops) = tb_exec (tb_reset l key) ops"

fun fw_exec :: "fw_limiter \<Rightarrow> ref_op list \<Rightarrow> (py_error + bool) list" where
  "fw_exec l [] = []"
| "fw_exec l (AllowRequest key t # ops) =
     (case fw_allow_request l key t of
        Inl e \<Rightarrow> Inl e # fw_exec l ops
      | Inr (r, l') \<Rightarrow> Inr r # fw_exec l' ops)"
| "fw_exec l (ResetUser key # ops) = fw_exec (fw_reset l key) ops"

subsection \<open>The cutoff in double precision\<close>

text \<open>
  The clock readings and the window are doubles, and both sliding windows compute their
  cutoff by one subtraction of doubles (\<open>current_time - self.time_window\<close> in
  \<open>solution.py\<close>, \<open>now - self.window\<close> in \<open>reference/sliding_window.py\<close>), which rounds
  its result to a double. Every other step of the two methods is exact on doubles: the
  comparisons of timestamps with the cutoff and the comparison of the length with the
  limit. The definitions below are the two methods with that subtraction as the
  parameter \<open>fsub\<close>; with the exact difference for \<open>fsub\<close> they are \<open>sol_is_allowed\<close> and
  \<open>sw_allow_request\<close>.
\<close>

definition sol_is_allowed_fl ::
  "(real \<Rightarrow> real \<Rightarrow> real) \<Rightarrow> sol_limiter \<Rightarrow> string \<Rightarrow> real \<Rightarrow> bool \<times> sol_limiter" where
  "sol_is_allowed_fl fsub l key current_time =
     (let cutoff_time = fsub current_time (time_window l);
          request_times = popleft_old cutoff_time (sol_lookup l key)
      in if int (length request_times) < max_requests l
         then (True, l\<lparr>requests := (requests l)(key \<mapsto> request_times @ [current_time])\<rparr>)
         else (False, l\<lparr>requests := (requests l)(key \<mapsto> request_times)\<rparr>))"

definition sw_allow_request_fl ::
  "(real \<Rightarrow> real \<Rightarrow> real) \<Rightarrow> sw_limiter \<Rightarrow> string \<Rightarrow> real \<Rightarrow> bool \<times> sw_limiter" where
  "sw_allow_request_fl fsub l user_id now =
     (let stored = (case sw_requests l user_id of None \<Rightarrow> [] | Some tss \<Rightarrow> tss);
          cutoff = fsub now (sw_window l);
          kept = filter (\<lambda>ts. ts > cutoff) stored
      in if int (length kept) < sw_limit l
         then (True, l\<lparr>sw_requests := (sw_requests l)(user_id \<mapsto> kept @ [now])\<rparr>)
         else (False, l\<lparr>sw_requests := (sw_requests l)(user_id \<mapsto> kept)\<rparr>))"

fun sol_trace_fl ::
  "(real \<Rightarrow> real \<Rightarrow> real) \<Rightarrow> sol_limiter \<Rightarrow> (string \<times> real) list \<Rightarrow> bool list" where
  "sol_trace_fl fsub l [] = []"
| "sol_trace_fl fsub l ((key, t) # calls) =
     fst (sol_is_allowed_fl fsub l key t)
       # sol_trace_fl fsub (snd (sol_is_allowed_fl fsub l key t)) calls"

fun sw_trace_fl ::
  "(real \<Rightarrow> real \<Rightarrow> real) \<Rightarrow> sw_limiter \<Rightarrow> (string \<times> real) list \<Rightarrow> bool list" where
  "sw_trace_fl fsub l [] = []"
| "sw_trace_fl fsub l ((key, t) # calls) =
     fst (sw_allow_request_fl fsub l key t)
       # sw_trace_fl fsub (snd (sw_allow_request_fl fsub l key t)) calls"

text \<open>
  Rounding to the nearest multiple of \<open>2^-22\<close>, the spacing of doubles between \<open>2^30\<close> and
  \<open>2^31\<close>, where clock readings of the present lie.
\<close>

definition round_grid :: "real \<Rightarrow> real" where
  "round_grid x = real_of_int \<lfloor>x * 4194304 + 1 / 2\<rfloor> / 4194304"

definition fsub_grid :: "real \<Rightarrow> real \<Rightarrow> real" where
  "fsub_grid a b = round_grid (a - b)"

section \<open>Scenarios\<close>

text \<open>
  C9 (Scenario A). With capacity 3 and window 1 second, four calls for a key the limiter
  has never seen, all at the same instant \<open>t\<close>: the first three are admitted and the
  fourth is rejected. This holds for \<open>solution.py\<close> and for the three reference
  strategies, whatever the limiter holds for other keys.
\<close>

theorem scenario_A:
  "(max_requests l = 3 \<and> time_window l = 1 \<and> requests l key = None \<longrightarrow>
      sol_trace l [(key, t), (key, t), (key, t), (key, t)] = [True, True, True, False]) \<and>
   (fw_limit fl = 3 \<and> fw_window fl = 1 \<and> windows fl key = None \<longrightarrow>
      fw_trace fl [(key, t), (key, t), (key, t), (key, t)]
        = [Inr True, Inr True, Inr True, Inr False]) \<and>
   (sw_limit wl = 3 \<and> sw_window wl = 1 \<and> sw_requests wl key = None \<longrightarrow>
      sw_trace wl [(key, t), (key, t), (key, t), (key, t)] = [True, True, True, False]) \<and>
   (tb_limit bl = 3 \<and> tb_window bl = 1 \<and> tb_rate bl = 3 \<and> buckets bl key = None \<longrightarrow>
      tb_trace bl [(key, t), (key, t), (key, t), (key, t)] = [True, True, True, False])"
  by (simp add: sol_is_allowed_def sol_lookup_def fw_allow_request_def sw_allow_request_def
      tb_allow_request_def tb_refill_def)

theorem scenario_A_witness:
  "sol_trace \<lparr>max_requests = 3, time_window = 1, requests = Map.empty\<rparr>
      [(''user1'', 0), (''user1'', 0), (''user1'', 0), (''user1'', 0)]
      = [True, True, True, False] \<and>
   fw_trace \<lparr>fw_limit = 3, fw_window = 1, windows = Map.empty\<rparr>
      [(''user1'', 0), (''user1'', 0), (''user1'', 0), (''user1'', 0)]
      = [Inr True, Inr True, Inr True, Inr False] \<and>
   sw_trace \<lparr>sw_limit = 3, sw_window = 1, sw_requests = Map.empty\<rparr>
      [(''user1'', 0), (''user1'', 0), (''user1'', 0), (''user1'', 0)]
      = [True, True, True, False] \<and>
   tb_trace \<lparr>tb_limit = 3, tb_window = 1, tb_rate = 3, buckets = Map.empty\<rparr>
      [(''user1'', 0), (''user1'', 0), (''user1'', 0), (''user1'', 0)]
      = [True, True, True, False]"
  using scenario_A [where l = "\<lparr>max_requests = 3, time_window = 1, requests = Map.empty\<rparr>"
      and fl = "\<lparr>fw_limit = 3, fw_window = 1, windows = Map.empty\<rparr>"
      and wl = "\<lparr>sw_limit = 3, sw_window = 1, sw_requests = Map.empty\<rparr>"
      and bl = "\<lparr>tb_limit = 3, tb_window = 1, tb_rate = 3, buckets = Map.empty\<rparr>"
      and key = "''user1''" and t = 0]
  by simp

text \<open>
  C3 (Scenario D), as the spec has it: capacity 5, window 2 seconds, five calls at
  \<open>t = 0\<close> and five more at \<open>t = 1.5\<close>; the fixed window is said to admit all five of the
  second batch. Both instants lie in the aligned window \<open>[0, 2)\<close>, so the stored
  \<open>window_start\<close> is not older than the new one, the count stays at 5 and the fixed
  window rejects the whole second batch.
\<close>

theorem scenario_D_fixed_window_counterexample:
  "take 5 (fw_trace \<lparr>fw_limit = 5, fw_window = 2, windows = Map.empty\<rparr>
      (replicate 5 (''user1'', 0) @ replicate 5 (''user1'', 3 / 2))) = replicate 5 (Inr True) \<and>
   drop 5 (fw_trace \<lparr>fw_limit = 5, fw_window = 2, windows = Map.empty\<rparr>
      (replicate 5 (''user1'', 0) @ replicate 5 (''user1'', 3 / 2))) = replicate 5 (Inr False)"
  by (simp add: fw_allow_request_def py_int_def numeral_eq_Suc)

text \<open>
  C3 (Scenario D), amended. Capacity 5, window 2 seconds, a key never seen, five calls at
  an instant \<open>t \<ge> 0\<close> and five more at \<open>t + 1.5\<close>. The first batch is admitted by every
  strategy. Of the second batch both sliding windows admit none; the token bucket has
  accrued \<open>3.75\<close> tokens and admits exactly three; the fixed window admits all five when
  a multiple of the window lies in \<open>(t, t + 1.5]\<close> (the aligned window index has grown)
  and none otherwise.
\<close>

theorem scenario_D:
  "(max_requests l = 5 \<and> time_window l = 2 \<and> requests l key = None \<longrightarrow>
      sol_trace l (replicate 5 (key, t) @ replicate 5 (key, t + 3 / 2))
        = replicate 5 True @ replicate 5 False) \<and>
   (sw_limit wl = 5 \<and> sw_window wl = 2 \<and> sw_requests wl key = None \<longrightarrow>
      sw_trace wl (replicate 5 (key, t) @ replicate 5 (key, t + 3 / 2))
        = replicate 5 True @ replicate 5 False) \<and>
   (tb_limit bl = 5 \<and> tb_window bl = 2 \<and> tb_rate bl = 5 / 2 \<and> buckets bl key = None \<longrightarrow>
      tokens (tb_refill (tb_run bl (replicate 5 (key, t))) key (t + 3 / 2)) = 15 / 4 \<and>
      tb_trace bl (replicate 5 (key, t) @ replicate 5 (key, t + 3 / 2))
        = replicate 5 True @ [True, True, True, False, False]) \<and>
   (fw_limit fl = 5 \<and> fw_window fl = 2 \<and> windows fl key = None \<and> 0 \<le> t \<longrightarrow>
      fw_trace fl (replicate 5 (key, t) @ replicate 5 (key, t + 3 / 2))
        = replicate 5 (Inr True) @ replicate 5 (Inr (\<lfloor>t / 2\<rfloor> < \<lfloor>(t + 3 / 2) / 2\<rfloor>)))"
proof -
  have sol: "max_requests l = 5 \<and> time_window l = 2 \<and> requests l key = None \<longrightarrow>
      sol_trace l (replicate 5 (key, t) @ replicate 5 (key, t + 3 / 2))
        = replicate 5 True @ replicate 5 False"
    by (simp add: sol_is_allowed_def sol_lookup_def numeral_eq_Suc)
  have sw: "sw_limit wl = 5 \<and> sw_window wl = 2 \<and> sw_requests wl key = None \<longrightarrow>
      sw_trace wl (replicate 5 (key, t) @ replicate 5 (key, t + 3 / 2))
        = replicate 5 True @ replicate 5 False"
    by (simp add: sw_allow_request_def numeral_eq_Suc)
  have tb: "tb_limit bl = 5 \<and> tb_window bl = 2 \<and> tb_rate bl = 5 / 2 \<and> buckets bl key = None \<longrightarrow>
      tokens (tb_refill (tb_run bl (replicate 5 (key, t))) key (t + 3 / 2)) = 15 / 4 \<and>
      tb_trace bl (replicate 5 (key, t) @ replicate 5 (key, t + 3 / 2))
        = replicate 5 True @ [True, True, True, False, False]"
    by (simp add: tb_allow_request_def tb_refill_def numeral_eq_Suc)
  have fw: "fw_limit fl = 5 \<and> fw_window fl = 2 \<and> windows fl key = None \<and> 0 \<le> t \<longrightarrow>
      fw_trace fl (replicate 5 (key, t) @ replicate 5 (key, t + 3 / 2))
        = replicate 5 (Inr True) @ replicate 5 (Inr (\<lfloor>t / 2\<rfloor> < \<lfloor>(t + 3 / 2) / 2\<rfloor>))"
    by (cases "\<lfloor>t / 2\<rfloor> < \<lfloor>(t + 3 / 2) / 2\<rfloor>")
       (simp_all add: fw_allow_request_def py_int_def numeral_eq_Suc Let_def)
  from sol sw tb fw show ?thesis by blast
qed

text \<open>The amended scenario at \<open>t = 1\<close>: the boundary \<open>2\<close> lies between the batches, and the
  fixed window admits all ten calls.\<close>

theorem scenario_D_witness:
  "sol_trace \<lparr>max_requests = 5, time_window = 2, requests = Map.empty\<rparr>
      (replicate 5 (''user1'', 1) @ replicate 5 (''user1'', 5 / 2))
      = replicate 5 True @ replicate 5 False \<and>
   sw_trace \<lparr>sw_limit = 5, sw_window = 2, sw_requests = Map.empty\<rparr>
      (replicate 5 (''user1'', 1) @ replicate 5 (''user1'', 5 / 2))
      = replicate 5 True @ replicate 5 False \<and>
   tb_trace \<lparr>tb_limit = 5, tb_window = 2, tb_rate = 5 / 2, buckets = Map.empty\<rparr>
      (replicate 5 (''user1'', 1) @ replicate 5 (''user1'', 5 / 2))
      = replicate 5 True @ [True, True, True, False, False] \<and>
   fw_trace \<lparr>fw_limit = 5, fw_window = 2, windows = Map.empty\<rparr>
      (replicate 5 (''user1'', 1) @ replicate 5 (''user1'', 5 / 2))
      = replicate 10 (Inr True)"
  using scenario_D [where l = "\<lparr>max_requests = 5, time_window = 2, requests = Map.empty\<rparr>"
      and fl = "\<lparr>fw_limit = 5, fw_window = 2, windows = Map.empty\<rparr>"
      and wl = "\<lparr>sw_limit = 5, sw_window = 2, sw_requests = Map.empty\<rparr>"
      and bl = "\<lparr>tb_limit = 5, tb_window = 2, tb_rate = 5 / 2, buckets = Map.empty\<rparr>"
      and key = "''user1''" and t = 1]
  by (simp add: numeral_eq_Suc)

text \<open>
  C2. The boundary weakness of the fixed window: there are a capacity, a window, a key and
  calls at non-decreasing times such that \<open>capacity\<close> calls fall in one aligned window,
  \<open>capacity\<close> more in the next, all \<open>2 \<times> capacity\<close> are admitted, and the span from the
  first call to the last is strictly shorter than the window.
\<close>

theorem fixed_window_boundary_burst:
  "\<exists>limit window key calls l n.
     0 < limit \<and> 0 < window \<and> fw_init limit window = Inr l \<and>
     sorted (map snd calls) \<and> list_all (\<lambda>c. fst c = key) calls \<and>
     length calls = 2 * nat limit \<and>
     list_all (\<lambda>c. py_int (snd c / window) = n) (take (nat limit) calls) \<and>
     list_all (\<lambda>c. py_int (snd c / window) = n + 1) (drop (nat limit) calls) \<and>
     fw_trace l calls = replicate (2 * nat limit) (Inr True) \<and>
     snd (last calls) - snd (hd calls) < window"
proof -
  let ?calls = "replicate 5 (''user1'', 3 / 2 :: real) @ replicate 5 (''user1'', 2)"
  let ?l = "\<lparr>fw_limit = 5, fw_window = 2, windows = Map.empty\<rparr>"
  have "0 < (5::int) \<and> 0 < (2::real) \<and> fw_init 5 2 = Inr ?l \<and>
     sorted (map snd ?calls) \<and> list_all (\<lambda>c. fst c = ''user1'') ?calls \<and>
     length ?calls = 2 * nat 5 \<and>
     list_all (\<lambda>c. py_int (snd c / 2) = 0) (take (nat 5) ?calls) \<and>
     list_all (\<lambda>c. py_int (snd c / 2) = 0 + 1) (drop (nat 5) ?calls) \<and>
     fw_trace ?l ?calls = replicate (2 * nat 5) (Inr True) \<and>
     snd (last ?calls) - snd (hd ?calls) < 2"
    by (simp add: fw_init_def fw_allow_request_def py_int_def numeral_eq_Suc)
  then show ?thesis by blast
qed

section \<open>Construction\<close>

text \<open>
  C5, as the spec has it: a negative capacity or a non-positive window makes the
  constructor fail. No constructor checks its arguments. With capacity \<open>-1\<close>, with window
  \<open>0\<close> and with window \<open>-1\<close> the constructors return a limiter holding exactly those
  values.
\<close>

theorem construction_counterexample:
  "sol_init (- 1) 1 = Inr \<lparr>max_requests = - 1, time_window = 1, requests = Map.empty\<rparr> \<and>
   sol_init 1 0 = Inr \<lparr>max_requests = 1, time_window = 0, requests = Map.empty\<rparr> \<and>
   sol_init 1 (- 1) = Inr \<lparr>max_requests = 1, time_window = - 1, requests = Map.empty\<rparr> \<and>
   fw_init (- 1) 1 = Inr \<lparr>fw_limit = - 1, fw_window = 1, windows = Map.empty\<rparr> \<and>
   fw_init 1 0 = Inr \<lparr>fw_limit = 1, fw_window = 0, windows = Map.empty\<rparr> \<and>
   sw_init (- 1) (- 1) = Inr \<lparr>sw_limit = - 1, sw_window = - 1, sw_requests = Map.empty\<rparr> \<and>
   tb_init (- 1) (- 1)
     = Inr \<lparr>tb_limit = - 1, tb_window = - 1, tb_rate = 1, buckets = Map.empty\<rparr>"
  by (simp add: sol_init_def fw_init_def sw_init_def tb_init_def)

text \<open>
  C5, amended. Construction validates nothing and clamps nothing. The constructors of
  \<open>solution.py\<close>, of the fixed window and of the reference sliding window succeed for
  every capacity and every window and store both unchanged, with no key on record. The
  token bucket does the same for every window other than zero, with rate
  \<open>capacity / window\<close>; for window zero, and only then, the division raises
  \<open>ZeroDivisionError\<close>.
\<close>

theorem construction_unchecked:
  "(\<exists>l. sol_init cap w = Inr l \<and> max_requests l = cap \<and> time_window l = w \<and>
        requests l = Map.empty) \<and>
   (\<exists>l. fw_init cap w = Inr l \<and> fw_limit l = cap \<and> fw_window l = w \<and>
        windows l = Map.empty) \<and>
   (\<exists>l. sw_init cap w = Inr l \<and> sw_limit l = cap \<and> sw_window l = w \<and>
        sw_requests l = Map.empty) \<and>
   (w \<noteq> 0 \<longrightarrow> (\<exists>l. tb_init cap w = Inr l \<and> tb_limit l = cap \<and> tb_window l = w \<and>
        tb_rate l = real_of_int cap / w \<and> buckets l = Map.empty)) \<and>
   (w = 0 \<longrightarrow> tb_init cap w = Inl ZeroDivisionError)"
  by (simp add: sol_init_def fw_init_def sw_init_def tb_init_def)

theorem construction_unchecked_witness:
  "(\<exists>l. sol_init (- 3) (- 2) = Inr l \<and> max_requests l = - 3 \<and> time_window l = - 2 \<and>
        requests l = Map.empty) \<and>
   (\<exists>l. fw_init (- 3) (- 2) = Inr l \<and> fw_limit l = - 3 \<and> fw_window l = - 2 \<and>
        windows l = Map.empty) \<and>
   (\<exists>l. sw_init (- 3) (- 2) = Inr l \<and> sw_limit l = - 3 \<and> sw_window l = - 2 \<and>
        sw_requests l = Map.empty) \<and>
   (\<exists>l. tb_init (- 3) (- 2) = Inr l \<and> tb_limit l = - 3 \<and> tb_window l = - 2 \<and>
        tb_rate l = 3 / 2 \<and> buckets l = Map.empty) \<and>
   tb_init 4 0 = Inl ZeroDivisionError"
  using construction_unchecked [of "- 3" "- 2"] construction_unchecked [of 4 0]
  by simp

section \<open>Rejected calls\<close>

text \<open>What the loop of \<open>solution.py\<close> removes: a prefix of timestamps that are all expired;
  what it leaves starts with a live timestamp; on a time-ordered deque it leaves exactly
  the live timestamps.\<close>

lemma popleft_old_split:
  "\<exists>expired. tss = expired @ popleft_old c tss \<and> list_all (\<lambda>u. u \<le> c) expired"
proof (induction tss)
  case Nil
  show ?case by simp
next
  case (Cons a tss)
  show ?case
  proof (cases "a \<le> c")
    case True
    from Cons obtain ex where "tss = ex @ popleft_old c tss" "list_all (\<lambda>u. u \<le> c) ex"
      by blast
    with True have "a # tss = (a # ex) @ popleft_old c (a # tss) \<and>
        list_all (\<lambda>u. u \<le> c) (a # ex)"
      by simp
    then show ?thesis by blast
  next
    case False
    then have "a # tss = [] @ popleft_old c (a # tss) \<and> list_all (\<lambda>u. u \<le> c) []"
      by simp
    then show ?thesis by blast
  qed
qed

lemma popleft_old_head: "(case popleft_old c tss of [] \<Rightarrow> True | u # _ \<Rightarrow> c < u)"
  by (induction tss) auto

lemma popleft_old_sorted: "sorted tss \<Longrightarrow> popleft_old c tss = filter (\<lambda>u. c < u) tss"
proof (induction tss)
  case Nil
  show ?case by simp
next
  case (Cons a tss)
  show ?case
  proof (cases "a \<le> c")
    case True
    with Cons show ?thesis by simp
  next
    case False
    with Cons.prems have "\<forall>u\<in>set tss. c < u" by auto
    then have "filter (\<lambda>u. c < u) tss = tss" by (simp add: filter_id_conv)
    with False show ?thesis by simp
  qed
qed

lemma sol_lookup_after:
  "sol_lookup (snd (sol_is_allowed l key now)) key =
     popleft_old (now - time_window l) (sol_lookup l key) @
       (if fst (sol_is_allowed l key now) then [now] else [])"
  by (simp add: sol_is_allowed_def Let_def sol_lookup_def)

text \<open>
  C7. A rejected call keeps the pruning or refill it did and records nothing for the
  event itself.
  \<^item> \<open>solution.py\<close>: the deque after the call is the old deque without a prefix of expired
    timestamps (each \<open>\<le> now - window\<close>); it starts with a live timestamp, nothing is
    appended, and on a time-ordered deque it is exactly the live timestamps.
  \<^item> Reference sliding window: the stored list is the old list filtered to the live
    timestamps, with nothing appended.
  \<^item> Token bucket: the stored bucket holds the refilled tokens
    \<open>min(limit, tokens + elapsed * rate)\<close>, not one less, and \<open>last_update = now\<close>; a key
    seen for the first time is stored with a full bucket.
  \<^item> Fixed window: when the aligned window start computed from \<open>now\<close> is newer than the
    stored one, it is adopted and the count is zero; otherwise the stored entry is kept;
    in neither case is the count incremented.
\<close>

theorem rejected_call_effects:
  "(\<not> fst (sol_is_allowed l key now) \<longrightarrow>
      (\<exists>expired. sol_lookup l key = expired @ sol_lookup (snd (sol_is_allowed l key now)) key \<and>
         list_all (\<lambda>u. u \<le> now - time_window l) expired) \<and>
      (case sol_lookup (snd (sol_is_allowed l key now)) key of [] \<Rightarrow> True
         | u # _ \<Rightarrow> now - time_window l < u) \<and>
      (sorted (sol_lookup l key) \<longrightarrow> sol_lookup (snd (sol_is_allowed l key now)) key
         = filter (\<lambda>u. now - time_window l < u) (sol_lookup l key))) \<and>
   (\<not> fst (sw_allow_request wl key now) \<longrightarrow>
      sw_requests (snd (sw_allow_request wl key now)) key =
        Some (filter (\<lambda>u. now - sw_window wl < u)
               (case sw_requests wl key of None \<Rightarrow> [] | Some tss \<Rightarrow> tss))) \<and>
   (\<not> fst (tb_allow_request bl key now) \<longrightarrow>
      (\<forall>b. buckets bl key = Some b \<longrightarrow> buckets (snd (tb_allow_request bl key now)) key =
         Some \<lparr>tokens = min (real_of_int (tb_limit bl))
                           (tokens b + (now - last_update b) * tb_rate bl),
               last_update = now\<rparr>) \<and>
      (buckets bl key = None \<longrightarrow> buckets (snd (tb_allow_request bl key now)) key =
         Some \<lparr>tokens = real_of_int (tb_limit bl), last_update = now\<rparr>)) \<and>
   (fw_allow_request fl key now = Inr (False, fl') \<longrightarrow>
      (\<forall>e. windows fl key = Some e \<longrightarrow> windows fl' key =
         Some (if window_start e < real_of_int (py_int (now / fw_window fl)) * fw_window fl
               then \<lparr>window_start = real_of_int (py_int (now / fw_window fl)) * fw_window fl,
                     count = 0\<rparr>
               else e)) \<and>
      (windows fl key = None \<longrightarrow> windows fl' key =
         Some \<lparr>window_start = real_of_int (py_int (now / fw_window fl)) * fw_window fl,
               count = 0\<rparr>))"
proof -
  have sol: "\<not> fst (sol_is_allowed l key now) \<longrightarrow>
      (\<exists>expired. sol_lookup l key = expired @ sol_lookup (snd (sol_is_allowed l key now)) key \<and>
         list_all (\<lambda>u. u \<le> now - time_window l) expired) \<and>
      (case sol_lookup (snd (sol_is_allowed l key now)) key of [] \<Rightarrow> True
         | u # _ \<Rightarrow> now - time_window l < u) \<and>
      (sorted (sol_lookup l key) \<longrightarrow> sol_lookup (snd (sol_is_allowed l key now)) key
         = filter (\<lambda>u. now - time_window l < u) (sol_lookup l key))"
    using popleft_old_split [of "sol_lookup l key" "now - time_window l"]
      popleft_old_head [of "now - time_window l" "sol_lookup l key"]
      popleft_old_sorted [of "sol_lookup l key" "now - time_window l"]
    by (simp add: sol_lookup_after)
  have sw: "\<not> fst (sw_allow_request wl key now) \<longrightarrow>
      sw_requests (snd (sw_allow_request wl key now)) key =
        Some (filter (\<lambda>u. now - sw_window wl < u)
               (case sw_requests wl key of None \<Rightarrow> [] | Some tss \<Rightarrow> tss))"
    by (simp add: sw_allow_request_def Let_def)
  have tb: "\<not> fst (tb_allow_request bl key now) \<longrightarrow>
      (\<forall>b. buckets bl key = Some b \<longrightarrow> buckets (snd (tb_allow_request bl key now)) key =
         Some \<lparr>tokens = min (real_of_int (tb_limit bl))
                           (tokens b + (now - last_update b) * tb_rate bl),
               last_update = now\<rparr>) \<and>
      (buckets bl key = None \<longrightarrow> buckets (snd (tb_allow_request bl key now)) key =
         Some \<lparr>tokens = real_of_int (tb_limit bl), last_update = now\<rparr>)"
    by (cases "buckets bl key") (simp_all add: tb_allow_request_def tb_refill_def Let_def)
  have fw: "fw_allow_request fl key now = Inr (False, fl') \<longrightarrow>
      (\<forall>e. windows fl key = Some e \<longrightarrow> windows fl' key =
         Some (if window_start e < real_of_int (py_int (now / fw_window fl)) * fw_window fl
               then \<lparr>window_start = real_of_int (py_int (now / fw_window fl)) * fw_window fl,
                     count = 0\<rparr>
               else e)) \<and>
      (windows fl key = None \<longrightarrow> windows fl' key =
         Some \<lparr>window_start = real_of_int (py_int (now / fw_window fl)) * fw_window fl,
               count = 0\<rparr>)"
    by (auto simp add: fw_allow_request_def Let_def split: if_splits)
  show ?thesis
    by (rule conjI [OF sol conjI [OF sw conjI [OF tb fw]]])
qed

text \<open>Four rejected calls: a deque \<open>[0, 1.5]\<close> at capacity 1 and window 1, called at time 2
  (the timestamp 0 is dropped, 1.5 stays, 2 is not appended); a bucket with no token at
  rate 1, called half a second after its last update (half a token is stored); a fixed
  window at its limit, called inside the same aligned window.\<close>

theorem rejected_call_effects_witness:
  "\<not> fst (sol_is_allowed
        \<lparr>max_requests = 1, time_window = 1, requests = [''user1'' \<mapsto> [0, 3 / 2]]\<rparr> ''user1'' 2) \<and>
   sol_lookup (snd (sol_is_allowed
        \<lparr>max_requests = 1, time_window = 1, requests = [''user1'' \<mapsto> [0, 3 / 2]]\<rparr> ''user1'' 2))
      ''user1'' = [3 / 2] \<and>
   \<not> fst (sw_allow_request
        \<lparr>sw_limit = 1, sw_window = 1, sw_requests = [''user1'' \<mapsto> [0, 3 / 2]]\<rparr> ''user1'' 2) \<and>
   sw_requests (snd (sw_allow_request
        \<lparr>sw_limit = 1, sw_window = 1, sw_requests = [''user1'' \<mapsto> [0, 3 / 2]]\<rparr> ''user1'' 2))
      ''user1'' = Some [3 / 2] \<and>
   \<not> fst (tb_allow_request
        \<lparr>tb_limit = 1, tb_window = 1, tb_rate = 1,
          buckets = [''user1'' \<mapsto> \<lparr>tokens = 0, last_update = 0\<rparr>]\<rparr> ''user1'' (1 / 2)) \<and>
   buckets (snd (tb_allow_request
        \<lparr>tb_limit = 1, tb_window = 1, tb_rate = 1,
          buckets = [''user1'' \<mapsto> \<lparr>tokens = 0, last_update = 0\<rparr>]\<rparr> ''user1'' (1 / 2)))
      ''user1'' = Some \<lparr>tokens = 1 / 2, last_update = 1 / 2\<rparr> \<and>
   fw_allow_request
        \<lparr>fw_limit = 1, fw_window = 1,
          windows = [''user1'' \<mapsto> \<lparr>window_start = 0, count = 1\<rparr>]\<rparr> ''user1'' (1 / 2)
     = Inr (False, \<lparr>fw_limit = 1, fw_window = 1,
          windows = [''user1'' \<mapsto> \<lparr>window_start = 0, count = 1\<rparr>]\<rparr>)"
proof -
  have sol_rej: "\<not> fst (sol_is_allowed
        \<lparr>max_requests = 1, time_window = 1, requests = [''user1'' \<mapsto> [0, 3 / 2]]\<rparr> ''user1'' 2)"
    by (simp add: sol_is_allowed_def sol_lookup_def)
  have sw_rej: "\<not> fst (sw_allow_request
        \<lparr>sw_limit = 1, sw_window = 1, sw_requests = [''user1'' \<mapsto> [0, 3 / 2]]\<rparr> ''user1'' 2)"
    by (simp add: sw_allow_request_def)
  have tb_rej: "\<not> fst (tb_allow_request
        \<lparr>tb_limit = 1, tb_window = 1, tb_rate = 1,
          buckets = [''user1'' \<mapsto> \<lparr>tokens = 0, last_update = 0\<rparr>]\<rparr> ''user1'' (1 / 2))"
    by (simp add: tb_allow_request_def tb_refill_def)
  have fw_rej: "fw_allow_request
        \<lparr>fw_limit = 1, fw_window = 1,
          windows = [''user1'' \<mapsto> \<lparr>window_start = 0, count = 1\<rparr>]\<rparr> ''user1'' (1 / 2)
     = Inr (False, \<lparr>fw_limit = 1, fw_window = 1,
          windows = [''user1'' \<mapsto> \<lparr>window_start = 0, count = 1\<rparr>]\<rparr>)"
    by (simp add: fw_allow_request_def py_int_def)
  show ?thesis
    using sol_rej sw_rej tb_rej fw_rej
      rejected_call_effects [where l = "\<lparr>max_requests = 1, time_window = 1,
          requests = [''user1'' \<mapsto> [0, 3 / 2]]\<rparr>"
        and wl = "\<lparr>sw_limit = 1, sw_window = 1, sw_requests = [''user1'' \<mapsto> [0, 3 / 2]]\<rparr>"
        and key = "''user1''" and now = 2]
      rejected_call_effects [where bl = "\<lparr>tb_limit = 1, tb_window = 1, tb_rate = 1,
          buckets = [''user1'' \<mapsto> \<lparr>tokens = 0, last_update = 0\<rparr>]\<rparr>"
        and fl = "\<lparr>fw_limit = 1, fw_window = 1,
          windows = [''user1'' \<mapsto> \<lparr>window_start = 0, count = 1\<rparr>]\<rparr>"
        and fl' = "\<lparr>fw_limit = 1, fw_window = 1,
          windows = [''user1'' \<mapsto> \<lparr>window_start = 0, count = 1\<rparr>]\<rparr>"
        and key = "''user1''" and now = "1 / 2"]
    by (simp add: sol_lookup_def)
qed

section \<open>Keys are independent\<close>

text \<open>
  C8. A call for a key reads and writes the state of that key only. For each of the four
  limiters: two limiters with the same configuration that agree on the state of \<open>key\<close>
  (and hold anything for other keys) give the same answer to a call for \<open>key\<close> at time
  \<open>t\<close> and leave \<open>key\<close> in the same state; the call leaves the state of every other key as
  it was. Scenario B: with capacity 2 and window 1 second (token rate 2 per second), on a
  limiter that has seen neither key, three calls for \<open>user1\<close> at one instant are answered
  admit, admit, reject, and a call for \<open>user2\<close> after them is admitted.
\<close>

theorem keys_independent:
  "(max_requests la = max_requests lb \<and> time_window la = time_window lb \<and> requests la key = requests lb key \<longrightarrow>
      fst (sol_is_allowed la key t) = fst (sol_is_allowed lb key t) \<and>
      requests (snd (sol_is_allowed la key t)) key = requests (snd (sol_is_allowed lb key t)) key) \<and>
   (other \<noteq> key \<longrightarrow> requests (snd (sol_is_allowed la key t)) other = requests la other) \<and>
   (max_requests l = 2 \<and> time_window l = 1 \<and> requests l ''user1'' = None \<and> requests l ''user2'' = None \<longrightarrow>
      sol_trace l [(''user1'', t), (''user1'', t), (''user1'', t), (''user2'', t')]
        = [True, True, False, True]) \<and>
   (fw_limit fa = fw_limit fb \<and> fw_window fa = fw_window fb \<and> windows fa key = windows fb key \<longrightarrow>
      fw_answer fa key t = fw_answer fb key t \<and>
      windows (fw_after fa key t) key = windows (fw_after fb key t) key) \<and>
   (other \<noteq> key \<longrightarrow> windows (fw_after fa key t) other = windows fa other) \<and>
   (fw_limit fl = 2 \<and> fw_window fl = 1 \<and> windows fl ''user1'' = None \<and> windows fl ''user2'' = None \<longrightarrow>
      fw_trace fl [(''user1'', t), (''user1'', t), (''user1'', t), (''user2'', t')]
        = [Inr True, Inr True, Inr False, Inr True]) \<and>
   (sw_limit wa = sw_limit wb \<and> sw_window wa = sw_window wb \<and> sw_requests wa key = sw_requests wb key \<longrightarrow>
      fst (sw_allow_request wa key t) = fst (sw_allow_request wb key t) \<and>
      sw_requests (snd (sw_allow_request wa key t)) key = sw_requests (snd (sw_allow_request wb key t)) key) \<and>
   (other \<noteq> key \<longrightarrow> sw_requests (snd (sw_allow_request wa key t)) other = sw_requests wa other) \<and>
   (sw_limit wl = 2 \<and> sw_window wl = 1 \<and> sw_requests wl ''user1'' = None \<and> sw_requests wl ''user2'' = None \<longrightarrow>
      sw_trace wl [(''user1'', t), (''user1'', t), (''user1'', t), (''user2'', t')]
        = [True, True, False, True]) \<and>
   (tb_limit ba = tb_limit bb \<and> tb_rate ba = tb_rate bb \<and> buckets ba key = buckets bb key \<longrightarrow>
      fst (tb_allow_request ba key t) = fst (tb_allow_request bb key t) \<and>
      buckets (snd (tb_allow_request ba key t)) key = buckets (snd (tb_allow_request bb key t)) key) \<and>
   (other \<noteq> key \<longrightarrow> buckets (snd (tb_allow_request ba key t)) other = buckets ba other) \<and>
   (tb_limit bl = 2 \<and> tb_rate bl = 2 \<and> buckets bl ''user1'' = None \<and> buckets bl ''user2'' = None \<longrightarrow>
      tb_trace bl [(''user1'', t), (''user1'', t), (''user1'', t), (''user2'', t')]
        = [True, True, False, True])"
proof -
  have refill: "tb_limit ba = tb_limit bb \<Longrightarrow> tb_rate ba = tb_rate bb \<Longrightarrow>
      buckets ba key = buckets bb key \<Longrightarrow> tb_refill ba key t = tb_refill bb key t"
    by (simp add: tb_refill_def split: option.splits)
  have c0: "max_requests la = max_requests lb \<and> time_window la = time_window lb \<and> requests la key = requests lb key \<longrightarrow>
      fst (sol_is_allowed la key t) = fst (sol_is_allowed lb key t) \<and>
      requests (snd (sol_is_allowed la key t)) key = requests (snd (sol_is_allowed lb key t)) key"
    by (simp add: sol_is_allowed_def sol_lookup_def Let_def)
  have c1: "other \<noteq> key \<longrightarrow> requests (snd (sol_is_allowed la key t)) other = requests la other"
    by (simp add: sol_is_allowed_def sol_lookup_def Let_def)
  have c2: "max_requests l = 2 \<and> time_window l = 1 \<and> requests l ''user1'' = None \<and> requests l ''user2'' = None \<longrightarrow>
      sol_trace l [(''user1'', t), (''user1'', t), (''user1'', t), (''user2'', t')]
        = [True, True, False, True]"
    by (simp add: sol_is_allowed_def sol_lookup_def Let_def)
  have c3: "fw_limit fa = fw_limit fb \<and> fw_window fa = fw_window fb \<and> windows fa key = windows fb key \<longrightarrow>
      fw_answer fa key t = fw_answer fb key t \<and>
      windows (fw_after fa key t) key = windows (fw_after fb key t) key"
    by (simp add: fw_answer_def fw_after_def fw_allow_request_def Let_def)
  have c4: "other \<noteq> key \<longrightarrow> windows (fw_after fa key t) other = windows fa other"
    by (simp add: fw_answer_def fw_after_def fw_allow_request_def Let_def)
  have c5: "fw_limit fl = 2 \<and> fw_window fl = 1 \<and> windows fl ''user1'' = None \<and> windows fl ''user2'' = None \<longrightarrow>
      fw_trace fl [(''user1'', t), (''user1'', t), (''user1'', t), (''user2'', t')]
        = [Inr True, Inr True, Inr False, Inr True]"
    by (simp add: fw_allow_request_def Let_def)
  have c6: "sw_limit wa = sw_limit wb \<and> sw_window wa = sw_window wb \<and> sw_requests wa key = sw_requests wb key \<longrightarrow>
      fst (sw_allow_request wa key t) = fst (sw_allow_request wb key t) \<and>
      sw_requests (snd (sw_allow_request wa key t)) key = sw_requests (snd (sw_allow_request wb key t)) key"
    by (simp add: sw_allow_request_def Let_def)
  have c7: "other \<noteq> key \<longrightarrow> sw_requests (snd (sw_allow_request wa key t)) other = sw_requests wa other"
    by (simp add: sw_allow_request_def Let_def)
  have c8: "sw_limit wl = 2 \<and> sw_window wl = 1 \<and> sw_requests wl ''user1'' = None \<and> sw_requests wl ''user2'' = None \<longrightarrow>
      sw_trace wl [(''user1'', t), (''user1'', t), (''user1'', t), (''user2'', t')]
        = [True, True, False, True]"
    by (simp add: sw_allow_request_def Let_def)
  have c9: "tb_limit ba = tb_limit bb \<and> tb_rate ba = tb_rate bb \<and> buckets ba key = buckets bb key \<longrightarrow>
      fst (tb_allow_request ba key t) = fst (tb_allow_request bb key t) \<and>
      buckets (snd (tb_allow_request ba key t)) key = buckets (snd (tb_allow_request bb key t)) key"
    using refill by (simp add: tb_allow_request_def Let_def)
  have c10: "other \<noteq> key \<longrightarrow> buckets (snd (tb_allow_request ba key t)) other = buckets ba other"
    by (simp add: tb_allow_request_def Let_def)
  have c11: "tb_limit bl = 2 \<and> tb_rate bl = 2 \<and> buckets bl ''user1'' = None \<and> buckets bl ''user2'' = None \<longrightarrow>
      tb_trace bl [(''user1'', t), (''user1'', t), (''user1'', t), (''user2'', t')]
        = [True, True, False, True]"
    by (simp add: tb_allow_request_def tb_refill_def Let_def)
  show ?thesis
    by (intro conjI) (fact c0 c1 c2 c3 c4 c5 c6 c7 c8 c9 c10 c11)+
qed

text \<open>The theorem on limiters that have not seen \<open>user1\<close>; the second of each pair has
  \<open>user2\<close> at its limit.\<close>

theorem keys_independent_witness:
  "fst (sol_is_allowed \<lparr>max_requests = 2, time_window = 1, requests = Map.empty\<rparr> ''user1'' (1 / 2))
     = fst (sol_is_allowed \<lparr>max_requests = 2, time_window = 1, requests = [''user2'' \<mapsto> [0, 0]]\<rparr> ''user1'' (1 / 2)) \<and>
   requests (snd (sol_is_allowed \<lparr>max_requests = 2, time_window = 1, requests = Map.empty\<rparr> ''user1'' (1 / 2))) ''user1''
     = requests (snd (sol_is_allowed \<lparr>max_requests = 2, time_window = 1, requests = [''user2'' \<mapsto> [0, 0]]\<rparr> ''user1'' (1 / 2))) ''user1'' \<and>
   requests (snd (sol_is_allowed \<lparr>max_requests = 2, time_window = 1, requests = Map.empty\<rparr> ''user1'' (1 / 2))) ''user2''
     = requests \<lparr>max_requests = 2, time_window = 1, requests = Map.empty\<rparr> ''user2'' \<and>
   sol_trace \<lparr>max_requests = 2, time_window = 1, requests = Map.empty\<rparr>
      [(''user1'', 1 / 2), (''user1'', 1 / 2), (''user1'', 1 / 2), (''user2'', 1 / 2)]
     = [True, True, False, True] \<and>
   fw_answer \<lparr>fw_limit = 2, fw_window = 1, windows = Map.empty\<rparr> ''user1'' (1 / 2)
     = fw_answer \<lparr>fw_limit = 2, fw_window = 1,
        windows = [''user2'' \<mapsto> \<lparr>window_start = 0, count = 2\<rparr>]\<rparr> ''user1'' (1 / 2) \<and>
   windows (fw_after \<lparr>fw_limit = 2, fw_window = 1, windows = Map.empty\<rparr> ''user1'' (1 / 2)) ''user1''
     = windows (fw_after \<lparr>fw_limit = 2, fw_window = 1,
        windows = [''user2'' \<mapsto> \<lparr>window_start = 0, count = 2\<rparr>]\<rparr> ''user1'' (1 / 2)) ''user1'' \<and>
   windows (fw_after \<lparr>fw_limit = 2, fw_window = 1, windows = Map.empty\<rparr> ''user1'' (1 / 2)) ''user2''
     = windows \<lparr>fw_limit = 2, fw_window = 1, windows = Map.empty\<rparr> ''user2'' \<and>
   fw_trace \<lparr>fw_limit = 2, fw_window = 1, windows = Map.empty\<rparr>
      [(''user1'', 1 / 2), (''user1'', 1 / 2), (''user1'', 1 / 2), (''user2'', 1 / 2)]
     = [Inr True, Inr True, Inr False, Inr True] \<and>
   fst (sw_allow_request \<lparr>sw_limit = 2, sw_window = 1, sw_requests = Map.empty\<rparr> ''user1'' (1 / 2))
     = fst (sw_allow_request \<lparr>sw_limit = 2, sw_window = 1, sw_requests = [''user2'' \<mapsto> [0, 0]]\<rparr> ''user1'' (1 / 2)) \<and>
   sw_requests (snd (sw_allow_request \<lparr>sw_limit = 2, sw_window = 1, sw_requests = Map.empty\<rparr> ''user1'' (1 / 2))) ''user1''
     = sw_requests (snd (sw_allow_request \<lparr>sw_limit = 2, sw_window = 1, sw_requests = [''user2'' \<mapsto> [0, 0]]\<rparr> ''user1'' (1 / 2))) ''user1'' \<and>
   sw_requests (snd (sw_allow_request \<lparr>sw_limit = 2, sw_window = 1, sw_requests = Map.empty\<rparr> ''user1'' (1 / 2))) ''user2''
     = sw_requests \<lparr>sw_limit = 2, sw_window = 1, sw_requests = Map.empty\<rparr> ''user2'' \<and>
   sw_trace \<lparr>sw_limit = 2, sw_window = 1, sw_requests = Map.empty\<rparr>
      [(''user1'', 1 / 2), (''user1'', 1 / 2), (''user1'', 1 / 2), (''user2'', 1 / 2)]
     = [True, True, False, True] \<and>
   fst (tb_allow_request \<lparr>tb_limit = 2, tb_window = 1, tb_rate = 2, buckets = Map.empty\<rparr> ''user1'' (1 / 2))
     = fst (tb_allow_request \<lparr>tb_limit = 2, tb_window = 1, tb_rate = 2,
        buckets = [''user2'' \<mapsto> \<lparr>tokens = 0, last_update = 0\<rparr>]\<rparr> ''user1'' (1 / 2)) \<and>
   buckets (snd (tb_allow_request \<lparr>tb_limit = 2, tb_window = 1, tb_rate = 2, buckets = Map.empty\<rparr> ''user1'' (1 / 2))) ''user1''
     = buckets (snd (tb_allow_request \<lparr>tb_limit = 2, tb_window = 1, tb_rate = 2,
        buckets = [''user2'' \<mapsto> \<lparr>tokens = 0, last_update = 0\<rparr>]\<rparr> ''user1'' (1 / 2))) ''user1'' \<and>
   buckets (snd (tb_allow_request \<lparr>tb_limit = 2, tb_window = 1, tb_rate = 2, buckets = Map.empty\<rparr> ''user1'' (1 / 2))) ''user2''
     = buckets \<lparr>tb_limit = 2, tb_window = 1, tb_rate = 2, buckets = Map.empty\<rparr> ''user2'' \<and>
   tb_trace \<lparr>tb_limit = 2, tb_window = 1, tb_rate = 2, buckets = Map.empty\<rparr>
      [(''user1'', 1 / 2), (''user1'', 1 / 2), (''user1'', 1 / 2), (''user2'', 1 / 2)]
     = [True, True, False, True]"
  using keys_independent [where la = "\<lparr>max_requests = 2, time_window = 1, requests = Map.empty\<rparr>"
      and lb = "\<lparr>max_requests = 2, time_window = 1, requests = [''user2'' \<mapsto> [0, 0]]\<rparr>"
      and l = "\<lparr>max_requests = 2, time_window = 1, requests = Map.empty\<rparr>"
      and fa = "\<lparr>fw_limit = 2, fw_window = 1, windows = Map.empty\<rparr>"
      and fb = "\<lparr>fw_limit = 2, fw_window = 1,
        windows = [''user2'' \<mapsto> \<lparr>window_start = 0, count = 2\<rparr>]\<rparr>"
      and fl = "\<lparr>fw_limit = 2, fw_window = 1, windows = Map.empty\<rparr>"
      and wa = "\<lparr>sw_limit = 2, sw_window = 1, sw_requests = Map.empty\<rparr>"
      and wb = "\<lparr>sw_limit = 2, sw_window = 1, sw_requests = [''user2'' \<mapsto> [0, 0]]\<rparr>"
      and wl = "\<lparr>sw_limit = 2, sw_window = 1, sw_requests = Map.empty\<rparr>"
      and ba = "\<lparr>tb_limit = 2, tb_window = 1, tb_rate = 2, buckets = Map.empty\<rparr>"
      and bb = "\<lparr>tb_limit = 2, tb_window = 1, tb_rate = 2,
        buckets = [''user2'' \<mapsto> \<lparr>tokens = 0, last_update = 0\<rparr>]\<rparr>"
      and bl = "\<lparr>tb_limit = 2, tb_window = 1, tb_rate = 2, buckets = Map.empty\<rparr>"
      and key = "''user1''"
      and other = "''user2''"
      and t = "1 / 2"
      and t' = "1 / 2"]
  by (simp add: sol_is_allowed_def sol_lookup_def fw_answer_def fw_after_def fw_allow_request_def
      py_int_def sw_allow_request_def tb_allow_request_def tb_refill_def)

section \<open>Reset\<close>

text \<open>
  Two controllers of \<open>solution.py\<close> with one configuration whose keys read the same deques
  (a key that is absent reads as the empty deque) answer every sequence of calls and
  resets alike.
\<close>

lemma sol_is_allowed_config:
  "max_requests (snd (sol_is_allowed l key t)) = max_requests l"
  "time_window (snd (sol_is_allowed l key t)) = time_window l"
  by (simp_all add: sol_is_allowed_def Let_def)

lemma sol_reset_config:
  "max_requests (sol_reset l k) = max_requests l"
  "time_window (sol_reset l k) = time_window l"
  by (simp_all add: sol_reset_def split: option.splits)

lemma sol_lookup_other:
  "other \<noteq> key \<Longrightarrow> sol_lookup (snd (sol_is_allowed l key t)) other = sol_lookup l other"
  by (simp add: sol_is_allowed_def Let_def sol_lookup_def)

lemma sol_answer_lookup:
  "fst (sol_is_allowed l key t) \<longleftrightarrow>
     int (length (popleft_old (t - time_window l) (sol_lookup l key))) < max_requests l"
  by (simp add: sol_is_allowed_def Let_def)

lemma sol_lookup_reset:
  "sol_lookup (sol_reset l k) key =
     (case k of None \<Rightarrow> [] | Some k' \<Rightarrow> if k' = key then [] else sol_lookup l key)"
  by (auto simp add: sol_reset_def sol_lookup_def split: option.splits)

lemma sol_exec_cong:
  "max_requests la = max_requests lb \<Longrightarrow> time_window la = time_window lb \<Longrightarrow>
   (\<And>k. sol_lookup la k = sol_lookup lb k) \<Longrightarrow> sol_exec la ops = sol_exec lb ops"
proof (induction ops arbitrary: la lb)
  case Nil
  show ?case by simp
next
  case (Cons op ops)
  show ?case
  proof (cases op)
    case (IsAllowed key t)
    have ans: "fst (sol_is_allowed la key t) = fst (sol_is_allowed lb key t)"
      using Cons.prems by (simp add: sol_answer_lookup)
    have look: "sol_lookup (snd (sol_is_allowed la key t)) k
        = sol_lookup (snd (sol_is_allowed lb key t)) k" for k
    proof (cases "k = key")
      case True
      with Cons.prems ans show ?thesis by (simp add: sol_lookup_after)
    next
      case False
      with Cons.prems show ?thesis by (simp add: sol_lookup_other)
    qed
    have "sol_exec (snd (sol_is_allowed la key t)) ops = sol_exec (snd (sol_is_allowed lb key t)) ops"
      using Cons.prems look by (intro Cons.IH) (simp_all add: sol_is_allowed_config)
    with ans IsAllowed show ?thesis by simp
  next
    case (Reset k)
    have "sol_exec (sol_reset la k) ops = sol_exec (sol_reset lb k) ops"
      using Cons.prems
      by (intro Cons.IH) (simp_all add: sol_reset_config sol_lookup_reset split: option.splits)
    with Reset show ?thesis by simp
  qed
qed

text \<open>
  C6. Reset, for every state of the controller (the reachable ones among them).
  \<^item> \<open>solution.py\<close>, \<open>reset(key)\<close>: every other key keeps its deque and the configuration
    stays; whatever calls and resets follow, the answers are those of the controller in
    which \<open>key\<close> was never seen (removed from the mapping); for a key not on record the
    controller is unchanged. \<open>reset()\<close> with no key leaves an empty mapping.
  \<^item> The three reference classes take the key as a required argument:
    \<open>reset(user_id)\<close> yields the limiter with \<open>user_id\<close> removed from the mapping and
    everything else as it was, and for a key not on record the limiter is unchanged.
\<close>

theorem reset_effects:
  "(other \<noteq> key \<longrightarrow> requests (sol_reset l (Some key)) other = requests l other) \<and>
   max_requests (sol_reset l (Some key)) = max_requests l \<and>
   time_window (sol_reset l (Some key)) = time_window l \<and>
   sol_exec (sol_reset l (Some key)) ops = sol_exec (l\<lparr>requests := (requests l)(key := None)\<rparr>) ops \<and>
   (requests l key = None \<longrightarrow> sol_reset l (Some key) = l) \<and>
   sol_reset l None = l\<lparr>requests := Map.empty\<rparr> \<and>
   fw_reset fl key = fl\<lparr>windows := (windows fl)(key := None)\<rparr> \<and>
   (windows fl key = None \<longrightarrow> fw_reset fl key = fl) \<and>
   sw_reset wl key = wl\<lparr>sw_requests := (sw_requests wl)(key := None)\<rparr> \<and>
   (sw_requests wl key = None \<longrightarrow> sw_reset wl key = wl) \<and>
   tb_reset bl key = bl\<lparr>buckets := (buckets bl)(key := None)\<rparr> \<and>
   (buckets bl key = None \<longrightarrow> tb_reset bl key = bl)"
proof -
  have c0: "other \<noteq> key \<longrightarrow> requests (sol_reset l (Some key)) other = requests l other"
    by (simp add: sol_reset_def)
  have c1: "max_requests (sol_reset l (Some key)) = max_requests l"
    by (simp add: sol_reset_config)
  have c2: "time_window (sol_reset l (Some key)) = time_window l"
    by (simp add: sol_reset_config)
  have c3: "sol_exec (sol_reset l (Some key)) ops
      = sol_exec (l\<lparr>requests := (requests l)(key := None)\<rparr>) ops"
    by (rule sol_exec_cong) (simp_all add: sol_reset_config sol_lookup_reset, simp add: sol_lookup_def)
  have c4: "requests l key = None \<longrightarrow> sol_reset l (Some key) = l"
    by (auto simp add: sol_reset_def)
  have c5: "sol_reset l None = l\<lparr>requests := Map.empty\<rparr>"
    by (simp add: sol_reset_def)
  have c6: "fw_reset fl key = fl\<lparr>windows := (windows fl)(key := None)\<rparr>"
    by (auto simp add: fw_reset_def fun_upd_idem)
  have c7: "windows fl key = None \<longrightarrow> fw_reset fl key = fl"
    by (auto simp add: fw_reset_def)
  have c8: "sw_reset wl key = wl\<lparr>sw_requests := (sw_requests wl)(key := None)\<rparr>"
    by (auto simp add: sw_reset_def fun_upd_idem)
  have c9: "sw_requests wl key = None \<longrightarrow> sw_reset wl key = wl"
    by (auto simp add: sw_reset_def)
  have c10: "tb_reset bl key = bl\<lparr>buckets := (buckets bl)(key := None)\<rparr>"
    by (auto simp add: tb_reset_def fun_upd_idem)
  have c11: "buckets bl key = None \<longrightarrow> tb_reset bl key = bl"
    by (auto simp add: tb_reset_def)
  show ?thesis
    by (intro conjI) (fact c0 c1 c2 c3 c4 c5 c6 c7 c8 c9 c10 c11)+
qed

text \<open>The reset test of \<open>eval.py\<close>: capacity 1, both keys used up, \<open>user1\<close> reset. Then
  \<open>user1\<close> is admitted and \<open>user2\<close> is still rejected; resetting the unknown \<open>user3\<close>
  changes nothing.\<close>

theorem reset_effects_witness:
  "requests (sol_reset \<lparr>max_requests = 1, time_window = 1,
       requests = [''user1'' \<mapsto> [0], ''user2'' \<mapsto> [0]]\<rparr> (Some ''user1'')) ''user2'' = Some [0] \<and>
   sol_exec (sol_reset \<lparr>max_requests = 1, time_window = 1,
       requests = [''user1'' \<mapsto> [0], ''user2'' \<mapsto> [0]]\<rparr> (Some ''user1''))
     [IsAllowed ''user1'' (1 / 2), IsAllowed ''user2'' (1 / 2)] = [True, False] \<and>
   sol_reset \<lparr>max_requests = 1, time_window = 1,
       requests = [''user1'' \<mapsto> [0], ''user2'' \<mapsto> [0]]\<rparr> (Some ''user3'')
     = \<lparr>max_requests = 1, time_window = 1,
       requests = [''user1'' \<mapsto> [0], ''user2'' \<mapsto> [0]]\<rparr> \<and>
   fw_reset \<lparr>fw_limit = 1, fw_window = 1,
       windows = [''user1'' \<mapsto> \<lparr>window_start = 0, count = 1\<rparr>]\<rparr> ''user3''
     = \<lparr>fw_limit = 1, fw_window = 1,
       windows = [''user1'' \<mapsto> \<lparr>window_start = 0, count = 1\<rparr>]\<rparr> \<and>
   sw_reset \<lparr>sw_limit = 1, sw_window = 1, sw_requests = [''user1'' \<mapsto> [0]]\<rparr> ''user3''
     = \<lparr>sw_limit = 1, sw_window = 1, sw_requests = [''user1'' \<mapsto> [0]]\<rparr> \<and>
   tb_reset \<lparr>tb_limit = 1, tb_window = 1, tb_rate = 1,
       buckets = [''user1'' \<mapsto> \<lparr>tokens = 0, last_update = 0\<rparr>]\<rparr> ''user3''
     = \<lparr>tb_limit = 1, tb_window = 1, tb_rate = 1,
       buckets = [''user1'' \<mapsto> \<lparr>tokens = 0, last_update = 0\<rparr>]\<rparr>"
proof -
  have run: "sol_exec (\<lparr>max_requests = 1, time_window = 1,
        requests = [''user1'' \<mapsto> [0], ''user2'' \<mapsto> [0]]\<rparr>
        \<lparr>requests := [''user1'' \<mapsto> [0], ''user2'' \<mapsto> [0]](''user1'' := None)\<rparr>)
      [IsAllowed ''user1'' (1 / 2), IsAllowed ''user2'' (1 / 2)] = [True, False]"
    by (simp add: sol_is_allowed_def sol_lookup_def)
  show ?thesis
    using run
      reset_effects [where l = "\<lparr>max_requests = 1, time_window = 1,
          requests = [''user1'' \<mapsto> [0], ''user2'' \<mapsto> [0]]\<rparr>"
        and key = "''user1''" and other = "''user2''"
        and ops = "[IsAllowed ''user1'' (1 / 2), IsAllowed ''user2'' (1 / 2)]"]
      reset_effects [where l = "\<lparr>max_requests = 1, time_window = 1,
          requests = [''user1'' \<mapsto> [0], ''user2'' \<mapsto> [0]]\<rparr>"
        and fl = "\<lparr>fw_limit = 1, fw_window = 1,
          windows = [''user1'' \<mapsto> \<lparr>window_start = 0, count = 1\<rparr>]\<rparr>"
        and wl = "\<lparr>sw_limit = 1, sw_window = 1, sw_requests = [''user1'' \<mapsto> [0]]\<rparr>"
        and bl = "\<lparr>tb_limit = 1, tb_window = 1, tb_rate = 1,
          buckets = [''user1'' \<mapsto> \<lparr>tokens = 0, last_update = 0\<rparr>]\<rparr>"
        and key = "''user3''"]
    by simp
qed

section \<open>Capacity zero and below\<close>

text \<open>With a limit of zero or less no comparison against the limit can succeed, whatever
  calls and resets came before.\<close>

lemma sol_exec_nonpos:
  "max_requests l \<le> 0 \<Longrightarrow> list_all (\<lambda>r. r = False) (sol_exec l ops)"
proof (induction l ops rule: sol_exec.induct)
  case (1 l)
  show ?case by simp
next
  case (2 l key t ops)
  from "2.prems" have "\<not> fst (sol_is_allowed l key t)"
    by (simp add: sol_is_allowed_def Let_def)
  moreover have "list_all (\<lambda>r. r = False) (sol_exec (snd (sol_is_allowed l key t)) ops)"
    using "2.prems" by (intro "2.IH") (simp add: sol_is_allowed_config)
  ultimately show ?case by simp
next
  case (3 l key ops)
  have "list_all (\<lambda>r. r = False) (sol_exec (sol_reset l key) ops)"
    using "3.prems" by (intro "3.IH") (simp add: sol_reset_config)
  then show ?case by simp
qed

lemma sw_exec_nonpos:
  "sw_limit l \<le> 0 \<Longrightarrow> list_all (\<lambda>r. r = False) (sw_exec l ops)"
proof (induction l ops rule: sw_exec.induct)
  case (1 l)
  show ?case by simp
next
  case (2 l key t ops)
  from "2.prems" have "\<not> fst (sw_allow_request l key t)"
    by (simp add: sw_allow_request_def Let_def)
  moreover have "list_all (\<lambda>r. r = False) (sw_exec (snd (sw_allow_request l key t)) ops)"
    using "2.prems" by (intro "2.IH") (simp add: sw_allow_request_def Let_def)
  ultimately show ?case by simp
next
  case (3 l key ops)
  have "list_all (\<lambda>r. r = False) (sw_exec (sw_reset l key) ops)"
    using "3.prems" by (intro "3.IH") (simp add: sw_reset_def)
  then show ?case by simp
qed

lemma tb_exec_nonpos:
  "tb_limit l \<le> 0 \<Longrightarrow> list_all (\<lambda>r. r = False) (tb_exec l ops)"
proof (induction l ops rule: tb_exec.induct)
  case (1 l)
  show ?case by simp
next
  case (2 l key t ops)
  from "2.prems" have "tokens (tb_refill l key t) \<le> 0"
    by (simp add: tb_refill_def Let_def min_le_iff_disj)
  then have "\<not> fst (tb_allow_request l key t)"
    by (simp add: tb_allow_request_def Let_def)
  moreover have "list_all (\<lambda>r. r = False) (tb_exec (snd (tb_allow_request l key t)) ops)"
    using "2.prems" by (intro "2.IH") (simp add: tb_allow_request_def Let_def)
  ultimately show ?case by simp
next
  case (3 l key ops)
  have "list_all (\<lambda>r. r = False) (tb_exec (tb_reset l key) ops)"
    using "3.prems" by (intro "3.IH") (simp add: tb_reset_def)
  then show ?case by simp
qed

text \<open>The fixed window compares a stored count with the limit, so it needs the counts
  on record to be non-negative: they start at zero and only grow or return to zero.\<close>

lemma fw_step_nonpos:
  assumes "fw_limit l \<le> 0" "fw_window l \<noteq> 0" "\<forall>k e. windows l k = Some e \<longrightarrow> 0 \<le> count e"
  shows "\<exists>l'. fw_allow_request l key t = Inr (False, l') \<and> fw_limit l' = fw_limit l \<and>
     fw_window l' = fw_window l \<and> (\<forall>k e. windows l' k = Some e \<longrightarrow> 0 \<le> count e)"
proof (cases "windows l key")
  case None
  with assms show ?thesis by (simp add: fw_allow_request_def Let_def)
next
  case (Some e)
  with assms(3) have "0 \<le> count e" by blast
  with assms(1) have full: "\<not> count e < fw_limit l" "\<not> 0 < fw_limit l" by linarith+
  have kept: "\<forall>k e'. ((windows l)(key \<mapsto> e)) k = Some e' \<longrightarrow> 0 \<le> count e'"
    using assms(3) Some by auto
  have fresh: "\<forall>k e'. ((windows l)(key \<mapsto> \<lparr>window_start = ws, count = 0\<rparr>)) k = Some e'
      \<longrightarrow> 0 \<le> count e'" for ws
    using assms(3) by auto
  show ?thesis
    using assms(2) Some full kept fresh by (simp add: fw_allow_request_def Let_def)
qed

lemma fw_exec_nonpos:
  "fw_limit l \<le> 0 \<Longrightarrow> fw_window l \<noteq> 0 \<Longrightarrow> \<forall>k e. windows l k = Some e \<longrightarrow> 0 \<le> count e \<Longrightarrow>
     list_all (\<lambda>r. r = Inr False) (fw_exec l ops)"
proof (induction ops arbitrary: l)
  case Nil
  show ?case by simp
next
  case (Cons op ops)
  show ?case
  proof (cases op)
    case (AllowRequest key t)
    from fw_step_nonpos [OF Cons.prems, of key t] obtain l' where
      step: "fw_allow_request l key t = Inr (False, l')" and
      cfg: "fw_limit l' = fw_limit l" "fw_window l' = fw_window l" and
      inv: "\<forall>k e. windows l' k = Some e \<longrightarrow> 0 \<le> count e"
      by blast
    have "list_all (\<lambda>r. r = Inr False) (fw_exec l' ops)"
      using Cons.prems cfg inv by (intro Cons.IH) simp_all
    with step AllowRequest show ?thesis by simp
  next
    case (ResetUser key)
    have "list_all (\<lambda>r. r = Inr False) (fw_exec (fw_reset l key) ops)"
      using Cons.prems by (intro Cons.IH) (auto simp add: fw_reset_def)
    with ResetUser show ?thesis by simp
  qed
qed

lemma nonpos_capacity_rejects:
  assumes "cap \<le> 0" "0 < w"
  shows "(\<exists>l. sol_init cap w = Inr l \<and> list_all (\<lambda>r. r = False) (sol_exec l ops)) \<and>
   (\<exists>l. fw_init cap w = Inr l \<and> list_all (\<lambda>r. r = Inr False) (fw_exec l rops)) \<and>
   (\<exists>l. sw_init cap w = Inr l \<and> list_all (\<lambda>r. r = False) (sw_exec l rops)) \<and>
   (\<exists>l. tb_init cap w = Inr l \<and> list_all (\<lambda>r. r = False) (tb_exec l rops))"
proof -
  have c0: "\<exists>l. sol_init cap w = Inr l \<and> list_all (\<lambda>r. r = False) (sol_exec l ops)"
    using assms sol_exec_nonpos [where ops = ops] by (simp add: sol_init_def)
  have c1: "\<exists>l. fw_init cap w = Inr l \<and> list_all (\<lambda>r. r = Inr False) (fw_exec l rops)"
    using assms fw_exec_nonpos [where ops = rops] by (simp add: fw_init_def)
  have c2: "\<exists>l. sw_init cap w = Inr l \<and> list_all (\<lambda>r. r = False) (sw_exec l rops)"
    using assms sw_exec_nonpos [where ops = rops] by (simp add: sw_init_def)
  have c3: "\<exists>l. tb_init cap w = Inr l \<and> list_all (\<lambda>r. r = False) (tb_exec l rops)"
    using assms tb_exec_nonpos [where ops = rops] by (simp add: tb_init_def)
  show ?thesis by (intro conjI) (fact c0 c1 c2 c3)+
qed

text \<open>
  C4. With capacity 0 and a positive window, construction succeeds and every call, in
  any sequence of calls and resets, for any keys (the empty key among them) and any clock
  readings, is answered with a rejection; none raises.
\<close>

theorem capacity_zero_rejects:
  assumes "0 < w"
  shows "(\<exists>l. sol_init 0 w = Inr l \<and> list_all (\<lambda>r. r = False) (sol_exec l ops)) \<and>
   (\<exists>l. fw_init 0 w = Inr l \<and> list_all (\<lambda>r. r = Inr False) (fw_exec l rops)) \<and>
   (\<exists>l. sw_init 0 w = Inr l \<and> list_all (\<lambda>r. r = False) (sw_exec l rops)) \<and>
   (\<exists>l. tb_init 0 w = Inr l \<and> list_all (\<lambda>r. r = False) (tb_exec l rops))"
  using assms by (intro nonpos_capacity_rejects) simp_all

theorem capacity_zero_rejects_witness:
  "(\<exists>l. sol_init 0 1 = Inr l \<and> list_all (\<lambda>r. r = False)
      (sol_exec l [IsAllowed ''user1'' 0, Reset None, IsAllowed ''user1'' 5, IsAllowed [] 5])) \<and>
   (\<exists>l. fw_init 0 1 = Inr l \<and> list_all (\<lambda>r. r = Inr False)
      (fw_exec l [AllowRequest ''user1'' 0, ResetUser ''user1'', AllowRequest ''user1'' 5])) \<and>
   (\<exists>l. sw_init 0 1 = Inr l \<and> list_all (\<lambda>r. r = False)
      (sw_exec l [AllowRequest ''user1'' 0, ResetUser ''user1'', AllowRequest ''user1'' 5])) \<and>
   (\<exists>l. tb_init 0 1 = Inr l \<and> list_all (\<lambda>r. r = False)
      (tb_exec l [AllowRequest ''user1'' 0, ResetUser ''user1'', AllowRequest ''user1'' 5]))"
  using capacity_zero_rejects [of 1
      "[IsAllowed ''user1'' 0, Reset None, IsAllowed ''user1'' 5, IsAllowed [] 5]"
      "[AllowRequest ''user1'' 0, ResetUser ''user1'', AllowRequest ''user1'' 5]"]
  by simp

text \<open>
  C10. A negative capacity with a positive window is accepted by every constructor, and
  the limiter it builds rejects every call, in any sequence of calls and resets, without
  raising.
\<close>

theorem negative_capacity_rejects:
  assumes "cap < 0" and "0 < w"
  shows "(\<exists>l. sol_init cap w = Inr l \<and> list_all (\<lambda>r. r = False) (sol_exec l ops)) \<and>
   (\<exists>l. fw_init cap w = Inr l \<and> list_all (\<lambda>r. r = Inr False) (fw_exec l rops)) \<and>
   (\<exists>l. sw_init cap w = Inr l \<and> list_all (\<lambda>r. r = False) (sw_exec l rops)) \<and>
   (\<exists>l. tb_init cap w = Inr l \<and> list_all (\<lambda>r. r = False) (tb_exec l rops))"
  using assms by (intro nonpos_capacity_rejects) simp_all

theorem negative_capacity_rejects_witness:
  "(\<exists>l. sol_init (- 2) 1 = Inr l \<and> list_all (\<lambda>r. r = False)
      (sol_exec l [IsAllowed ''user1'' 0, Reset (Some ''user1''), IsAllowed ''user1'' 5])) \<and>
   (\<exists>l. fw_init (- 2) 1 = Inr l \<and> list_all (\<lambda>r. r = Inr False)
      (fw_exec l [AllowRequest ''user1'' 0, ResetUser ''user1'', AllowRequest ''user1'' 5])) \<and>
   (\<exists>l. sw_init (- 2) 1 = Inr l \<and> list_all (\<lambda>r. r = False)
      (sw_exec l [AllowRequest ''user1'' 0, ResetUser ''user1'', AllowRequest ''user1'' 5])) \<and>
   (\<exists>l. tb_init (- 2) 1 = Inr l \<and> list_all (\<lambda>r. r = False)
      (tb_exec l [AllowRequest ''user1'' 0, ResetUser ''user1'', AllowRequest ''user1'' 5]))"
  using negative_capacity_rejects [of "- 2" 1
      "[IsAllowed ''user1'' 0, Reset (Some ''user1''), IsAllowed ''user1'' 5]"
      "[AllowRequest ''user1'' 0, ResetUser ''user1'', AllowRequest ''user1'' 5]"]
  by simp

section \<open>Admissions in a trailing window\<close>

text \<open>
  The admitted calls of a key are counted in the trailing interval \<open>(t - w, t]\<close>. Appending
  an admission at \<open>now\<close> keeps a bound \<open>c\<close> on every such interval as soon as fewer than
  \<open>c\<close> earlier admissions are still live at \<open>now\<close>.
\<close>

lemma admitted_Nil [simp]: "admitted key [] rs = []"
  by (simp add: admitted_def)

lemma admitted_Cons [simp]:
  "admitted key ((k, t) # calls) (r # rs) =
     (if k = key \<and> r then [t] else []) @ admitted key calls rs"
  by (simp add: admitted_def)

lemma count_within_append:
  "count_within w t (xs @ ys) = count_within w t xs + count_within w t ys"
  by (simp add: count_within_def)

lemma count_within_Nil [simp]: "count_within w t [] = 0"
  by (simp add: count_within_def)

lemma count_within_le_live:
  assumes "now \<le> t"
  shows "count_within w t xs \<le> length (filter (\<lambda>u. now - w < u) xs)"
proof -
  have "filter (\<lambda>u. t - w < u \<and> u \<le> t) xs
      = filter (\<lambda>u. t - w < u \<and> u \<le> t) (filter (\<lambda>u. now - w < u) xs)"
    using assms by (induction xs) auto
  then have "count_within w t xs
      = length (filter (\<lambda>u. t - w < u \<and> u \<le> t) (filter (\<lambda>u. now - w < u) xs))"
    by (simp only: count_within_def)
  also have "\<dots> \<le> length (filter (\<lambda>u. now - w < u) xs)"
    by (rule length_filter_le)
  finally show ?thesis .
qed

lemma window_step:
  assumes bound: "\<And>t. int (count_within w t xs) \<le> c"
    and live: "int (length (filter (\<lambda>u. now - w < u) xs)) < c"
  shows "int (count_within w t (xs @ [now])) \<le> c"
proof (cases "t - w < now \<and> now \<le> t")
  case True
  then have "count_within w t xs \<le> length (filter (\<lambda>u. now - w < u) xs)"
    by (intro count_within_le_live) simp
  with live True show ?thesis
    by (simp add: count_within_append count_within_def)
next
  case False
  with bound [of t] show ?thesis
    by (auto simp add: count_within_append count_within_def)
qed

lemma filter_popleft_old:
  "c \<le> x \<Longrightarrow> filter (\<lambda>u. x < u) (popleft_old c xs) = filter (\<lambda>u. x < u) xs"
  by (induction xs) auto

text \<open>
  The sliding window of \<open>solution.py\<close>, with its cutoff as the code computes it. A computed
  cutoff \<open>fsub now window\<close> may lie above the exact \<open>now - window\<close>; let \<open>\<epsilon>\<close> bound
  that excess over the calls of a run. Along the run the deque of a key and the list of
  its admitted calls hold the same timestamps newer than \<open>now - window + \<epsilon>\<close>, which
  no cutoff of a later call undercuts.
\<close>

lemma sol_fl_exact: "sol_is_allowed_fl (\<lambda>a b. a - b) l key t = sol_is_allowed l key t"
  by (simp add: sol_is_allowed_fl_def sol_is_allowed_def)

lemma sw_fl_exact: "sw_allow_request_fl (\<lambda>a b. a - b) l key t = sw_allow_request l key t"
  by (simp add: sw_allow_request_fl_def sw_allow_request_def)

lemma sol_trace_fl_exact: "sol_trace_fl (\<lambda>a b. a - b) l calls = sol_trace l calls"
  by (induction l calls rule: sol_trace.induct) (simp_all add: sol_fl_exact)

lemma sw_trace_fl_exact: "sw_trace_fl (\<lambda>a b. a - b) l calls = sw_trace l calls"
  by (induction l calls rule: sw_trace.induct) (simp_all add: sw_fl_exact)

lemma sol_fl_facts:
  "max_requests (snd (sol_is_allowed_fl fsub l key t)) = max_requests l"
  "time_window (snd (sol_is_allowed_fl fsub l key t)) = time_window l"
  "fst (sol_is_allowed_fl fsub l key t) \<longleftrightarrow>
     int (length (popleft_old (fsub t (time_window l)) (sol_lookup l key))) < max_requests l"
  "sol_lookup (snd (sol_is_allowed_fl fsub l key t)) key =
     popleft_old (fsub t (time_window l)) (sol_lookup l key) @
       (if fst (sol_is_allowed_fl fsub l key t) then [t] else [])"
  "other \<noteq> key \<Longrightarrow> sol_lookup (snd (sol_is_allowed_fl fsub l key t)) other = sol_lookup l other"
  by (simp_all add: sol_is_allowed_fl_def Let_def sol_lookup_def)

lemma sol_bound_gen:
  assumes "sorted (map snd calls)" and "\<forall>c\<in>set calls. T \<le> snd c"
    and "\<forall>c\<in>set calls. fsub (snd c) (time_window l) \<le> snd c - time_window l + \<epsilon>"
    and "\<And>k x. T - time_window l + \<epsilon> \<le> x \<Longrightarrow>
           filter (\<lambda>u. x < u) (A k) = filter (\<lambda>u. x < u) (sol_lookup l k)"
    and "\<And>k t. int (count_within (time_window l - \<epsilon>) t (A k)) \<le> max_requests l"
  shows "int (count_within (time_window l - \<epsilon>) t
           (A key @ admitted key calls (sol_trace_fl fsub l calls))) \<le> max_requests l"
  using assms
proof (induction calls arbitrary: l A T)
  case Nil
  then show ?case by simp
next
  case (Cons call calls)
  obtain k0 t0 where call: "call = (k0, t0)" by (cases call)
  define r where "r = fst (sol_is_allowed_fl fsub l k0 t0)"
  define l' where "l' = snd (sol_is_allowed_fl fsub l k0 t0)"
  define A' where "A' = A(k0 := A k0 @ (if r then [t0] else []))"
  let ?w = "time_window l"
  define cut where "cut = fsub t0 ?w"
  define live_from where "live_from = t0 - ?w + \<epsilon>"
  have cfg: "time_window l' = ?w" "max_requests l' = max_requests l"
    by (simp_all add: l'_def sol_fl_facts)
  from Cons.prems(2) call have T: "T \<le> t0" by simp
  from Cons.prems(3) call have cut: "cut \<le> live_from"
    by (simp add: cut_def live_from_def)
  have live: "filter (\<lambda>u. x < u) (A k) = filter (\<lambda>u. x < u) (sol_lookup l k)"
    if "live_from \<le> x" for k x
    using that T by (intro Cons.prems(4)) (simp add: live_from_def)
  have s1: "sorted (map snd calls)"
    using Cons.prems(1) by simp
  have s2: "\<forall>c\<in>set calls. t0 \<le> snd c"
    using Cons.prems(1) call by auto
  have s3: "\<forall>c\<in>set calls. fsub (snd c) (time_window l') \<le> snd c - time_window l' + \<epsilon>"
    using Cons.prems(3) cfg by simp
  have inv: "filter (\<lambda>u. x < u) (A' k) = filter (\<lambda>u. x < u) (sol_lookup l' k)"
    if x: "t0 - time_window l' + \<epsilon> \<le> x" for k x
  proof (cases "k = k0")
    case True
    from x cfg have x': "live_from \<le> x" by (simp add: live_from_def)
    with cut have "cut \<le> x" by simp
    from filter_popleft_old [OF this, of "sol_lookup l k0"] True live [OF x', of k0]
    show ?thesis
      by (simp add: A'_def l'_def r_def sol_fl_facts cut_def)
  next
    case False
    from x cfg have x': "live_from \<le> x" by (simp add: live_from_def)
    show ?thesis
      using False live [OF x', of k] by (simp add: A'_def l'_def sol_fl_facts)
  qed
  have bound: "int (count_within (time_window l' - \<epsilon>) t (A' k)) \<le> max_requests l'" for k t
  proof (cases "k = k0 \<and> r")
    case True
    have "filter (\<lambda>u. live_from < u) (A k0)
        = filter (\<lambda>u. live_from < u) (popleft_old cut (sol_lookup l k0))"
      using live [of live_from k0] filter_popleft_old [OF cut, of "sol_lookup l k0"]
      by simp
    then have "length (filter (\<lambda>u. live_from < u) (A k0))
        \<le> length (popleft_old cut (sol_lookup l k0))"
      by (metis length_filter_le)
    moreover from True have "int (length (popleft_old cut (sol_lookup l k0))) < max_requests l"
      by (simp add: r_def sol_fl_facts cut_def)
    ultimately have "int (length (filter (\<lambda>u. live_from < u) (A k0))) < max_requests l"
      by linarith
    moreover have "t0 - (?w - \<epsilon>) = live_from"
      by (simp add: live_from_def)
    ultimately have "int (length (filter (\<lambda>u. t0 - (?w - \<epsilon>) < u) (A k0))) < max_requests l"
      by simp
    then have "int (count_within (?w - \<epsilon>) t (A k0 @ [t0])) \<le> max_requests l"
      using Cons.prems(5) by (intro window_step) simp_all
    with True cfg show ?thesis by (simp add: A'_def)
  next
    case False
    then have "A' k = A k" by (auto simp add: A'_def)
    with cfg Cons.prems(5) show ?thesis by simp
  qed
  have "int (count_within (time_window l' - \<epsilon>) t
      (A' key @ admitted key calls (sol_trace_fl fsub l' calls))) \<le> max_requests l'"
    using s1 s2 s3 inv bound by (rule Cons.IH)
  moreover have "A key @ admitted key (call # calls) (sol_trace_fl fsub l (call # calls))
      = A' key @ admitted key calls (sol_trace_fl fsub l' calls)"
    by (simp add: call A'_def l'_def r_def)
  ultimately show ?case using cfg by simp
qed

lemma sol_bound:
  assumes "requests l = Map.empty" "0 \<le> max_requests l" "sorted (map snd calls)"
    "list_all (\<lambda>c. fsub (snd c) (time_window l) \<le> snd c - time_window l + \<epsilon>) calls"
  shows "int (count_within (time_window l - \<epsilon>) t
           (admitted key calls (sol_trace_fl fsub l calls))) \<le> max_requests l"
proof -
  define T where "T = (case calls of [] \<Rightarrow> 0 | c # _ \<Rightarrow> snd c)"
  have "\<forall>c\<in>set calls. T \<le> snd c"
    using assms(3) by (cases calls) (auto simp add: T_def)
  moreover have "\<forall>c\<in>set calls. fsub (snd c) (time_window l) \<le> snd c - time_window l + \<epsilon>"
    using assms(4) by (simp add: list_all_iff)
  moreover have "filter (\<lambda>u. x < u) ((\<lambda>_. []) k) = filter (\<lambda>u. x < u) (sol_lookup l k)"
    for k :: string and x
    using assms(1) by (simp add: sol_lookup_def)
  moreover have "int (count_within (time_window l - \<epsilon>) t ((\<lambda>_. []) k)) \<le> max_requests l"
    for k :: string and t
    using assms(2) by simp
  ultimately have "int (count_within (time_window l - \<epsilon>) t
      ((\<lambda>_. []) key @ admitted key calls (sol_trace_fl fsub l calls))) \<le> max_requests l"
    using assms(3) by (intro sol_bound_gen [where T = T and A = "\<lambda>_. []"]) simp_all
  then show ?thesis by simp
qed

text \<open>The reference sliding window: the same argument with the filter in place of the
  loop.\<close>

lemma sw_fl_facts:
  "sw_window (snd (sw_allow_request_fl fsub l key t)) = sw_window l"
  "sw_limit (snd (sw_allow_request_fl fsub l key t)) = sw_limit l"
  "fst (sw_allow_request_fl fsub l key t) \<longleftrightarrow>
     int (length (filter (\<lambda>u. fsub t (sw_window l) < u)
       (case sw_requests l key of None \<Rightarrow> [] | Some tss \<Rightarrow> tss))) < sw_limit l"
  "sw_requests (snd (sw_allow_request_fl fsub l key t)) key =
     Some (filter (\<lambda>u. fsub t (sw_window l) < u)
       (case sw_requests l key of None \<Rightarrow> [] | Some tss \<Rightarrow> tss)
       @ (if fst (sw_allow_request_fl fsub l key t) then [t] else []))"
  "other \<noteq> key \<Longrightarrow>
     sw_requests (snd (sw_allow_request_fl fsub l key t)) other = sw_requests l other"
  by (simp_all add: sw_allow_request_fl_def Let_def)

lemma filter_narrow:
  "c \<le> x \<Longrightarrow> filter (\<lambda>u. x < u) (filter (\<lambda>u. c < u) xs) = filter (\<lambda>u. x < u) (xs :: real list)"
  by (induction xs) auto

lemma sw_bound_gen:
  assumes "sorted (map snd calls)" and "\<forall>c\<in>set calls. T \<le> snd c"
    and "\<forall>c\<in>set calls. fsub (snd c) (sw_window l) \<le> snd c - sw_window l + \<epsilon>"
    and "\<And>k x. T - sw_window l + \<epsilon> \<le> x \<Longrightarrow> filter (\<lambda>u. x < u) (A k)
           = filter (\<lambda>u. x < u) (case sw_requests l k of None \<Rightarrow> [] | Some tss \<Rightarrow> tss)"
    and "\<And>k t. int (count_within (sw_window l - \<epsilon>) t (A k)) \<le> sw_limit l"
  shows "int (count_within (sw_window l - \<epsilon>) t
           (A key @ admitted key calls (sw_trace_fl fsub l calls))) \<le> sw_limit l"
  using assms
proof (induction calls arbitrary: l A T)
  case Nil
  then show ?case by simp
next
  case (Cons call calls)
  obtain k0 t0 where call: "call = (k0, t0)" by (cases call)
  define r where "r = fst (sw_allow_request_fl fsub l k0 t0)"
  define l' where "l' = snd (sw_allow_request_fl fsub l k0 t0)"
  define A' where "A' = A(k0 := A k0 @ (if r then [t0] else []))"
  let ?w = "sw_window l"
  let ?st = "\<lambda>l k. case sw_requests l k of None \<Rightarrow> [] | Some tss \<Rightarrow> tss"
  define cut where "cut = fsub t0 ?w"
  define live_from where "live_from = t0 - ?w + \<epsilon>"
  have cfg: "sw_window l' = ?w" "sw_limit l' = sw_limit l"
    by (simp_all add: l'_def sw_fl_facts)
  from Cons.prems(2) call have T: "T \<le> t0" by simp
  from Cons.prems(3) call have cut: "cut \<le> live_from"
    by (simp add: cut_def live_from_def)
  have live: "filter (\<lambda>u. x < u) (A k) = filter (\<lambda>u. x < u) (?st l k)"
    if "live_from \<le> x" for k x
    using that T by (intro Cons.prems(4)) (simp add: live_from_def)
  have s1: "sorted (map snd calls)"
    using Cons.prems(1) by simp
  have s2: "\<forall>c\<in>set calls. t0 \<le> snd c"
    using Cons.prems(1) call by auto
  have s3: "\<forall>c\<in>set calls. fsub (snd c) (sw_window l') \<le> snd c - sw_window l' + \<epsilon>"
    using Cons.prems(3) cfg by simp
  have inv: "filter (\<lambda>u. x < u) (A' k) = filter (\<lambda>u. x < u) (?st l' k)"
    if x: "t0 - sw_window l' + \<epsilon> \<le> x" for k x
  proof (cases "k = k0")
    case True
    from x cfg have x': "live_from \<le> x" by (simp add: live_from_def)
    with cut have "cut \<le> x" by simp
    from filter_narrow [OF this, of "?st l k0"] True live [OF x', of k0]
    show ?thesis
      by (simp add: A'_def l'_def r_def sw_fl_facts cut_def)
  next
    case False
    from x cfg have x': "live_from \<le> x" by (simp add: live_from_def)
    show ?thesis
      using False live [OF x', of k] by (simp add: A'_def l'_def sw_fl_facts)
  qed
  have bound: "int (count_within (sw_window l' - \<epsilon>) t (A' k)) \<le> sw_limit l'" for k t
  proof (cases "k = k0 \<and> r")
    case True
    have "filter (\<lambda>u. live_from < u) (A k0)
        = filter (\<lambda>u. live_from < u) (filter (\<lambda>u. cut < u) (?st l k0))"
      using live [of live_from k0] filter_narrow [OF cut, of "?st l k0"]
      by simp
    then have "length (filter (\<lambda>u. live_from < u) (A k0))
        \<le> length (filter (\<lambda>u. cut < u) (?st l k0))"
      by (metis length_filter_le)
    moreover from True have "int (length (filter (\<lambda>u. cut < u) (?st l k0))) < sw_limit l"
      by (simp add: r_def sw_fl_facts cut_def)
    ultimately have "int (length (filter (\<lambda>u. live_from < u) (A k0))) < sw_limit l"
      by linarith
    moreover have "t0 - (?w - \<epsilon>) = live_from"
      by (simp add: live_from_def)
    ultimately have "int (length (filter (\<lambda>u. t0 - (?w - \<epsilon>) < u) (A k0))) < sw_limit l"
      by simp
    then have "int (count_within (?w - \<epsilon>) t (A k0 @ [t0])) \<le> sw_limit l"
      using Cons.prems(5) by (intro window_step) simp_all
    with True cfg show ?thesis by (simp add: A'_def)
  next
    case False
    then have "A' k = A k" by (auto simp add: A'_def)
    with cfg Cons.prems(5) show ?thesis by simp
  qed
  have "int (count_within (sw_window l' - \<epsilon>) t
      (A' key @ admitted key calls (sw_trace_fl fsub l' calls))) \<le> sw_limit l'"
    using s1 s2 s3 inv bound by (rule Cons.IH)
  moreover have "A key @ admitted key (call # calls) (sw_trace_fl fsub l (call # calls))
      = A' key @ admitted key calls (sw_trace_fl fsub l' calls)"
    by (simp add: call A'_def l'_def r_def)
  ultimately show ?case using cfg by simp
qed

lemma sw_bound:
  assumes "sw_requests l = Map.empty" "0 \<le> sw_limit l" "sorted (map snd calls)"
    "list_all (\<lambda>c. fsub (snd c) (sw_window l) \<le> snd c - sw_window l + \<epsilon>) calls"
  shows "int (count_within (sw_window l - \<epsilon>) t
           (admitted key calls (sw_trace_fl fsub l calls))) \<le> sw_limit l"
proof -
  define T where "T = (case calls of [] \<Rightarrow> 0 | c # _ \<Rightarrow> snd c)"
  have "\<forall>c\<in>set calls. T \<le> snd c"
    using assms(3) by (cases calls) (auto simp add: T_def)
  moreover have "\<forall>c\<in>set calls. fsub (snd c) (sw_window l) \<le> snd c - sw_window l + \<epsilon>"
    using assms(4) by (simp add: list_all_iff)
  moreover have "filter (\<lambda>u. x < u) ((\<lambda>_. []) k)
      = filter (\<lambda>u. x < u) (case sw_requests l k of None \<Rightarrow> [] | Some tss \<Rightarrow> tss)"
    for k :: string and x
    using assms(1) by simp
  moreover have "int (count_within (sw_window l - \<epsilon>) t ((\<lambda>_. []) k)) \<le> sw_limit l"
    for k :: string and t
    using assms(2) by simp
  ultimately have "int (count_within (sw_window l - \<epsilon>) t
      ((\<lambda>_. []) key @ admitted key calls (sw_trace_fl fsub l calls))) \<le> sw_limit l"
    using assms(3) by (intro sw_bound_gen [where T = T and A = "\<lambda>_. []"]) simp_all
  then show ?thesis by simp
qed

text \<open>
  The token bucket. For every instant \<open>x\<close>, the admissions after \<open>x\<close> plus the tokens in
  the bucket are at most the capacity plus what the bucket refilled since \<open>x\<close>; a window
  refills one capacity, so a trailing window holds at most two capacities.
\<close>

lemma bucket_refill:
  fixes c w r L now \<tau> :: real and A :: "real list"
  assumes c: "0 \<le> c" and w: "0 < w" and r: "r = c / w"
    and mono: "L \<le> now"
    and past: "\<forall>u\<in>set A. u \<le> L"
    and pot: "\<And>x. real (length (filter (\<lambda>u. x < u) A)) + \<tau> \<le> c + max 0 (L - x) * r"
  shows "real (length (filter (\<lambda>u. x < u) A)) + min c (\<tau> + (now - L) * r)
           \<le> c + max 0 (now - x) * r"
proof -
  from c w r have r0: "0 \<le> r" by simp
  show ?thesis
  proof (cases "x < L")
    case True
    with mono have "max 0 (L - x) = L - x" "max 0 (now - x) = now - x" by simp_all
    with pot [of x] have "real (length (filter (\<lambda>u. x < u) A)) + \<tau> + (now - L) * r
        \<le> c + (now - x) * r"
      by (simp add: algebra_simps)
    moreover have "min c (\<tau> + (now - L) * r) \<le> \<tau> + (now - L) * r" by simp
    ultimately show ?thesis using \<open>max 0 (now - x) = now - x\<close> by linarith
  next
    case False
    with past have "filter (\<lambda>u. x < u) A = []"
      by (auto simp add: filter_empty_conv)
    moreover have "0 \<le> max 0 (now - x) * r" using r0 by simp
    moreover have "min c (\<tau> + (now - L) * r) \<le> c" by simp
    ultimately show ?thesis by simp
  qed
qed

lemma bucket_take:
  fixes c w r now \<tau>' :: real and A :: "real list"
  assumes c: "0 \<le> c" and w: "0 < w" and r: "r = c / w"
    and pot: "\<And>x. real (length (filter (\<lambda>u. x < u) A)) + \<tau>' \<le> c + max 0 (now - x) * r"
    and one: "1 \<le> \<tau>'"
    and bound: "\<And>t. real (count_within w t A) \<le> 2 * c"
  shows "real (length (filter (\<lambda>u. x < u) (A @ [now]))) + (\<tau>' - 1) \<le> c + max 0 (now - x) * r"
    and "real (count_within w t (A @ [now])) \<le> 2 * c"
proof -
  from c w r have r0: "0 \<le> r" by simp
  from w r have wr: "w * r = c" by simp
  have "real (length (filter (\<lambda>u. x < u) (A @ [now])))
      \<le> real (length (filter (\<lambda>u. x < u) A)) + 1"
    by simp
  with pot [of x]
  show "real (length (filter (\<lambda>u. x < u) (A @ [now]))) + (\<tau>' - 1) \<le> c + max 0 (now - x) * r"
    by linarith
  show "real (count_within w t (A @ [now])) \<le> 2 * c"
  proof (cases "t - w < now \<and> now \<le> t")
    case True
    then have "count_within w t A \<le> length (filter (\<lambda>u. t - w < u) A)"
      using count_within_le_live [of t t w A] by simp
    moreover have "max 0 (now - (t - w)) * r \<le> w * r"
      using True r0 by (intro mult_right_mono) simp_all
    ultimately have "real (count_within w t A) + \<tau>' \<le> c + c"
      using pot [of "t - w"] wr by linarith
    with one True show ?thesis
      by (simp add: count_within_append count_within_def)
  next
    case False
    with bound [of t] show ?thesis
      by (auto simp add: count_within_append count_within_def)
  qed
qed

lemma tb_facts:
  "tb_limit (snd (tb_allow_request l key t)) = tb_limit l"
  "tb_window (snd (tb_allow_request l key t)) = tb_window l"
  "tb_rate (snd (tb_allow_request l key t)) = tb_rate l"
  "fst (tb_allow_request l key t) \<longleftrightarrow> 1 \<le> tokens (tb_refill l key t)"
  "buckets (snd (tb_allow_request l key t)) key =
     Some \<lparr>tokens = tokens (tb_refill l key t) - (if fst (tb_allow_request l key t) then 1 else 0),
           last_update = t\<rparr>"
  "other \<noteq> key \<Longrightarrow> buckets (snd (tb_allow_request l key t)) other = buckets l other"
  by (simp_all add: tb_allow_request_def tb_refill_def Let_def)

lemma tb_bound_gen:
  assumes "sorted (map snd calls)" and "\<forall>c\<in>set calls. T \<le> snd c"
    and "0 \<le> tb_limit l" and "0 < tb_window l"
    and "tb_rate l = real_of_int (tb_limit l) / tb_window l"
    and "\<And>k. buckets l k = None \<Longrightarrow> A k = []"
    and "\<And>k b. buckets l k = Some b \<Longrightarrow>
           last_update b \<le> T \<and> 0 \<le> tokens b \<and> (\<forall>u\<in>set (A k). u \<le> last_update b) \<and>
           (\<forall>x. real (length (filter (\<lambda>u. x < u) (A k))) + tokens b
                  \<le> real_of_int (tb_limit l) + max 0 (last_update b - x) * tb_rate l)"
    and "\<And>k t. real (count_within (tb_window l) t (A k)) \<le> 2 * real_of_int (tb_limit l)"
  shows "real (count_within (tb_window l) t (A key @ admitted key calls (tb_trace l calls)))
           \<le> 2 * real_of_int (tb_limit l)"
  using assms
proof (induction calls arbitrary: l A T)
  case Nil
  then show ?case by simp
next
  case (Cons call calls)
  obtain k0 t0 where call: "call = (k0, t0)" by (cases call)
  define c where "c = real_of_int (tb_limit l)"
  define w where "w = tb_window l"
  define r where "r = tb_rate l"
  define adm where "adm = fst (tb_allow_request l k0 t0)"
  define l' where "l' = snd (tb_allow_request l k0 t0)"
  define A' where "A' = A(k0 := A k0 @ (if adm then [t0] else []))"
  define \<tau> where "\<tau> = (case buckets l k0 of None \<Rightarrow> c | Some b \<Rightarrow> tokens b)"
  define L where "L = (case buckets l k0 of None \<Rightarrow> t0 | Some b \<Rightarrow> last_update b)"
  define \<tau>' where "\<tau>' = min c (\<tau> + (t0 - L) * r)"
  have c0: "0 \<le> c" using Cons.prems(3) by (simp add: c_def)
  have w0: "0 < w" using Cons.prems(4) by (simp add: w_def)
  have rate: "r = c / w" using Cons.prems(5) by (simp add: r_def c_def w_def)
  from c0 w0 rate have r0: "0 \<le> r" by simp
  have cfg: "tb_limit l' = tb_limit l" "tb_window l' = tb_window l" "tb_rate l' = tb_rate l"
    by (simp_all add: l'_def tb_facts)
  from Cons.prems(2) call have T: "T \<le> t0" by simp
  have s1: "sorted (map snd calls)"
    using Cons.prems(1) by simp
  have s2: "\<forall>c\<in>set calls. t0 \<le> snd c"
    using Cons.prems(1) call by auto
  have refill: "tokens (tb_refill l k0 t0) = \<tau>'"
    by (simp add: tb_refill_def \<tau>'_def \<tau>_def L_def c_def r_def Let_def split: option.splits)
  have adm_iff: "adm \<longleftrightarrow> 1 \<le> \<tau>'"
    by (simp add: adm_def tb_facts refill)
  have new: "buckets l' k0 = Some \<lparr>tokens = \<tau>' - (if adm then 1 else 0), last_update = t0\<rparr>"
    by (simp add: l'_def adm_def tb_facts refill)
  have old: "L \<le> t0 \<and> 0 \<le> \<tau> \<and> (\<forall>u\<in>set (A k0). u \<le> L) \<and>
      (\<forall>x. real (length (filter (\<lambda>u. x < u) (A k0))) + \<tau> \<le> c + max 0 (L - x) * r)"
  proof (cases "buckets l k0")
    case None
    with Cons.prems(6) have "A k0 = []" by simp
    with None c0 r0 show ?thesis by (simp add: L_def \<tau>_def)
  next
    case (Some b)
    from Cons.prems(7) [OF Some] T Some show ?thesis
      by (simp add: L_def \<tau>_def c_def r_def)
  qed
  then have mono: "L \<le> t0" and tok: "0 \<le> \<tau>" and past: "\<forall>u\<in>set (A k0). u \<le> L"
    and pot: "\<And>x. real (length (filter (\<lambda>u. x < u) (A k0))) + \<tau> \<le> c + max 0 (L - x) * r"
    by blast+
  have tok': "0 \<le> \<tau>'"
  proof -
    from mono r0 have "0 \<le> (t0 - L) * r" by simp
    with tok c0 show ?thesis by (simp add: \<tau>'_def)
  qed
  have pot': "real (length (filter (\<lambda>u. x < u) (A k0))) + \<tau>' \<le> c + max 0 (t0 - x) * r" for x
    unfolding \<tau>'_def using c0 w0 rate mono past pot by (rule bucket_refill)
  have bound0: "real (count_within w t (A k)) \<le> 2 * c" for k t
    using Cons.prems(8) [of t k] by (simp add: w_def c_def)
  have pot_new: "real (length (filter (\<lambda>u. x < u) (A' k0))) + (\<tau>' - (if adm then 1 else 0))
      \<le> c + max 0 (t0 - x) * r" for x
  proof (cases adm)
    case True
    then have "1 \<le> \<tau>'" by (simp add: adm_iff)
    from bucket_take(1) [OF c0 w0 rate pot' this bound0, of x] True
    show ?thesis by (simp add: A'_def)
  next
    case False
    with pot' [of x] show ?thesis by (simp add: A'_def)
  qed
  have bound_new: "real (count_within w t (A' k)) \<le> 2 * c" for k t
  proof (cases "k = k0 \<and> adm")
    case True
    then have "1 \<le> \<tau>'" by (simp add: adm_iff)
    from bucket_take(2) [OF c0 w0 rate pot' this bound0, of t] True
    show ?thesis by (simp add: A'_def)
  next
    case False
    then have "A' k = A k" by (auto simp add: A'_def)
    with bound0 show ?thesis by simp
  qed
  have i1: "A' k = []" if "buckets l' k = None" for k
  proof -
    from that new have "k \<noteq> k0" by auto
    with that Cons.prems(6) [of k] show ?thesis by (simp add: A'_def l'_def tb_facts)
  qed
  have i2: "last_update b \<le> t0 \<and> 0 \<le> tokens b \<and> (\<forall>u\<in>set (A' k). u \<le> last_update b) \<and>
      (\<forall>x. real (length (filter (\<lambda>u. x < u) (A' k))) + tokens b
             \<le> real_of_int (tb_limit l') + max 0 (last_update b - x) * tb_rate l')"
    if "buckets l' k = Some b" for k b
  proof (cases "k = k0")
    case True
    with that new have b: "b = \<lparr>tokens = \<tau>' - (if adm then 1 else 0), last_update = t0\<rparr>"
      by simp
    have "0 \<le> tokens b" using tok' adm_iff by (simp add: b)
    moreover have "\<forall>u\<in>set (A' k). u \<le> last_update b"
      using past mono True by (auto simp add: b A'_def)
    moreover have "\<forall>x. real (length (filter (\<lambda>u. x < u) (A' k))) + tokens b
             \<le> real_of_int (tb_limit l') + max 0 (last_update b - x) * tb_rate l'"
      using pot_new True by (simp add: b cfg c_def r_def)
    ultimately show ?thesis by (simp add: b)
  next
    case False
    with that have "buckets l k = Some b" by (simp add: l'_def tb_facts)
    from Cons.prems(7) [OF this] False T show ?thesis by (simp add: A'_def cfg)
  qed
  have i3: "real (count_within (tb_window l') t (A' k)) \<le> 2 * real_of_int (tb_limit l')" for k t
    using bound_new [of t k] by (simp add: cfg w_def c_def)
  have "real (count_within (tb_window l') t (A' key @ admitted key calls (tb_trace l' calls)))
      \<le> 2 * real_of_int (tb_limit l')"
    using s1 s2 _ _ _ i1 i2 i3
    by (rule Cons.IH) (simp_all add: cfg Cons.prems)
  moreover have "A key @ admitted key (call # calls) (tb_trace l (call # calls))
      = A' key @ admitted key calls (tb_trace l' calls)"
    by (simp add: call A'_def l'_def adm_def)
  ultimately show ?case using cfg by simp
qed

lemma tb_bound:
  assumes "buckets l = Map.empty" "0 \<le> tb_limit l" "0 < tb_window l"
    "tb_rate l = real_of_int (tb_limit l) / tb_window l" "sorted (map snd calls)"
  shows "int (count_within (tb_window l) t (admitted key calls (tb_trace l calls)))
           \<le> 2 * tb_limit l"
proof -
  define T where "T = (case calls of [] \<Rightarrow> 0 | c # _ \<Rightarrow> snd c)"
  have "\<forall>c\<in>set calls. T \<le> snd c"
    using assms(5) by (cases calls) (auto simp add: T_def)
  then have "real (count_within (tb_window l) t
      ((\<lambda>_. []) key @ admitted key calls (tb_trace l calls))) \<le> 2 * real_of_int (tb_limit l)"
    using assms by (intro tb_bound_gen [where T = T and A = "\<lambda>_. []"]) simp_all
  then have "real_of_int (int (count_within (tb_window l) t (admitted key calls (tb_trace l calls))))
      \<le> real_of_int (2 * tb_limit l)"
    by simp
  then show ?thesis by (simp only: of_int_le_iff)
qed

text \<open>
  C1, as the spec has it, for the token bucket: capacity 5, window 2 seconds, five calls
  at time 0 and five at time 1.5, in order. The bucket starts full, so the first five are
  admitted; it then refills 3.75 tokens and admits three more. The trailing interval
  \<open>(-0.5, 1.5]\<close> of length 2 holds 8 admissions, more than the capacity.
\<close>

theorem token_bucket_window_counterexample:
  "tb_init 5 2 = Inr \<lparr>tb_limit = 5, tb_window = 2, tb_rate = 5 / 2, buckets = Map.empty\<rparr> \<and>
   sorted (map snd (replicate 5 (''user1'', 0 :: real) @ replicate 5 (''user1'', 3 / 2))) \<and>
   count_within 2 (3 / 2) (admitted ''user1''
     (replicate 5 (''user1'', 0) @ replicate 5 (''user1'', 3 / 2))
     (tb_trace \<lparr>tb_limit = 5, tb_window = 2, tb_rate = 5 / 2, buckets = Map.empty\<rparr>
       (replicate 5 (''user1'', 0) @ replicate 5 (''user1'', 3 / 2)))) = 8"
  by (simp add: tb_init_def tb_allow_request_def tb_refill_def count_within_def numeral_eq_Suc)

text \<open>
  The sliding windows and the rounding of the cutoff. Capacity 1, window the double
  nearest to 0.1 (\<open>3602879701896397 / 2^55\<close>), a call at the double nearest to
  1699999999.9 (\<open>1700000000 - 419430 / 2^22\<close>) and a call at 1700000000.0. The exact
  difference \<open>1700000000 - window\<close> is not a double; the nearest one is the first call's
  timestamp itself, so the second call drops that timestamp and is admitted. The two
  admissions lie in one trailing interval of length \<open>window\<close>, and in no trailing
  interval of length \<open>window - 2^-23\<close>.
\<close>

lemma sol_rounded_cutoff_first:
  "sol_is_allowed_fl fsub_grid
     \<lparr>max_requests = 1, time_window = 3602879701896397 / 36028797018963968,
       requests = Map.empty\<rparr>
     ''user1'' (1700000000 - 419430 / 4194304) =
   (True, \<lparr>max_requests = 1, time_window = 3602879701896397 / 36028797018963968,
      requests = [''user1'' \<mapsto> [1700000000 - 419430 / 4194304]]\<rparr>)"
  unfolding sol_is_allowed_fl_def by (simp add: sol_lookup_def)

lemma sol_rounded_cutoff_second:
  "sol_is_allowed_fl fsub_grid
     \<lparr>max_requests = 1, time_window = 3602879701896397 / 36028797018963968,
       requests = [''user1'' \<mapsto> [1700000000 - 419430 / 4194304]]\<rparr>
     ''user1'' 1700000000 =
   (True, \<lparr>max_requests = 1, time_window = 3602879701896397 / 36028797018963968,
      requests = [''user1'' \<mapsto> [1700000000]]\<rparr>)"
  unfolding sol_is_allowed_fl_def by (simp add: sol_lookup_def fsub_grid_def round_grid_def)

lemma sol_rounded_cutoff_trace:
  "sol_trace_fl fsub_grid
     \<lparr>max_requests = 1, time_window = 3602879701896397 / 36028797018963968,
       requests = Map.empty\<rparr>
     [(''user1'', 1700000000 - 419430 / 4194304), (''user1'', 1700000000)] = [True, True]"
  by (simp only: sol_trace_fl.simps sol_rounded_cutoff_first sol_rounded_cutoff_second
      fst_conv snd_conv)

lemma sw_rounded_cutoff_first:
  "sw_allow_request_fl fsub_grid
     \<lparr>sw_limit = 1, sw_window = 3602879701896397 / 36028797018963968,
       sw_requests = Map.empty\<rparr>
     ''user1'' (1700000000 - 419430 / 4194304) =
   (True, \<lparr>sw_limit = 1, sw_window = 3602879701896397 / 36028797018963968,
      sw_requests = [''user1'' \<mapsto> [1700000000 - 419430 / 4194304]]\<rparr>)"
  unfolding sw_allow_request_fl_def by simp

lemma sw_rounded_cutoff_second:
  "sw_allow_request_fl fsub_grid
     \<lparr>sw_limit = 1, sw_window = 3602879701896397 / 36028797018963968,
       sw_requests = [''user1'' \<mapsto> [1700000000 - 419430 / 4194304]]\<rparr>
     ''user1'' 1700000000 =
   (True, \<lparr>sw_limit = 1, sw_window = 3602879701896397 / 36028797018963968,
      sw_requests = [''user1'' \<mapsto> [1700000000]]\<rparr>)"
  unfolding sw_allow_request_fl_def by (simp add: fsub_grid_def round_grid_def)

lemma sw_rounded_cutoff_trace:
  "sw_trace_fl fsub_grid
     \<lparr>sw_limit = 1, sw_window = 3602879701896397 / 36028797018963968,
       sw_requests = Map.empty\<rparr>
     [(''user1'', 1700000000 - 419430 / 4194304), (''user1'', 1700000000)] = [True, True]"
  by (simp only: sw_trace_fl.simps sw_rounded_cutoff_first sw_rounded_cutoff_second
      fst_conv snd_conv)

lemma rounded_cutoff_exceeds_capacity:
  "count_within (3602879701896397 / 36028797018963968) 1700000000
     (admitted ''user1''
       [(''user1'', 1700000000 - 419430 / 4194304), (''user1'', 1700000000)]
       (sol_trace_fl fsub_grid
         \<lparr>max_requests = 1, time_window = 3602879701896397 / 36028797018963968,
           requests = Map.empty\<rparr>
         [(''user1'', 1700000000 - 419430 / 4194304), (''user1'', 1700000000)])) = 2 \<and>
   count_within (3602879701896397 / 36028797018963968) 1700000000
     (admitted ''user1''
       [(''user1'', 1700000000 - 419430 / 4194304), (''user1'', 1700000000)]
       (sw_trace_fl fsub_grid
         \<lparr>sw_limit = 1, sw_window = 3602879701896397 / 36028797018963968,
           sw_requests = Map.empty\<rparr>
         [(''user1'', 1700000000 - 419430 / 4194304), (''user1'', 1700000000)])) = 2"
  by (simp only: sol_rounded_cutoff_trace sw_rounded_cutoff_trace)
    (simp add: count_within_def)

text \<open>
  C1, amended. A limiter that has seen no key, with a capacity that is not negative, is
  given calls at non-decreasing times.
  \<^item> Sliding windows (\<open>solution.py\<close> and the reference): let \<open>\<epsilon>\<close> be such that at every
    call the cutoff the code computes, the double subtraction \<open>fsub now window\<close>, is at
    most \<open>now - window + \<epsilon>\<close>. Then for every key and every \<open>t\<close> the admitted calls of
    that key with call time in the trailing interval \<open>(t - (window - \<epsilon>), t]\<close> number at
    most \<open>capacity\<close>. Where the subtraction is exact, \<open>\<epsilon> = 0\<close> and the interval has the
    length of the window; otherwise the bound is lost on the last \<open>\<epsilon>\<close> of it, as in the
    example above.
  \<^item> Token bucket (positive window, rate \<open>capacity / window\<close> as the constructor sets
    it): the admitted calls of a key with call time in \<open>(t - window, t]\<close> number at most
    \<open>2 \<times> capacity\<close>.
\<close>

theorem trailing_window_bounds:
  "(requests l = Map.empty \<and> 0 \<le> max_requests l \<and> sorted (map snd calls) \<and>
      list_all (\<lambda>c. fsub (snd c) (time_window l) \<le> snd c - time_window l + \<epsilon>) calls \<longrightarrow>
      int (count_within (time_window l - \<epsilon>) t
            (admitted key calls (sol_trace_fl fsub l calls))) \<le> max_requests l) \<and>
   (sw_requests wl = Map.empty \<and> 0 \<le> sw_limit wl \<and> sorted (map snd calls) \<and>
      list_all (\<lambda>c. fsub (snd c) (sw_window wl) \<le> snd c - sw_window wl + \<epsilon>) calls \<longrightarrow>
      int (count_within (sw_window wl - \<epsilon>) t
            (admitted key calls (sw_trace_fl fsub wl calls))) \<le> sw_limit wl) \<and>
   (buckets bl = Map.empty \<and> 0 \<le> tb_limit bl \<and> 0 < tb_window bl \<and>
      tb_rate bl = real_of_int (tb_limit bl) / tb_window bl \<and> sorted (map snd calls) \<longrightarrow>
      int (count_within (tb_window bl) t (admitted key calls (tb_trace bl calls)))
        \<le> 2 * tb_limit bl)"
proof -
  have sol: "requests l = Map.empty \<and> 0 \<le> max_requests l \<and> sorted (map snd calls) \<and>
      list_all (\<lambda>c. fsub (snd c) (time_window l) \<le> snd c - time_window l + \<epsilon>) calls \<longrightarrow>
      int (count_within (time_window l - \<epsilon>) t
            (admitted key calls (sol_trace_fl fsub l calls))) \<le> max_requests l"
    using sol_bound [of l calls fsub \<epsilon> t key] by blast
  have sw: "sw_requests wl = Map.empty \<and> 0 \<le> sw_limit wl \<and> sorted (map snd calls) \<and>
      list_all (\<lambda>c. fsub (snd c) (sw_window wl) \<le> snd c - sw_window wl + \<epsilon>) calls \<longrightarrow>
      int (count_within (sw_window wl - \<epsilon>) t
            (admitted key calls (sw_trace_fl fsub wl calls))) \<le> sw_limit wl"
    using sw_bound [of wl calls fsub \<epsilon> t key] by blast
  have tb: "buckets bl = Map.empty \<and> 0 \<le> tb_limit bl \<and> 0 < tb_window bl \<and>
      tb_rate bl = real_of_int (tb_limit bl) / tb_window bl \<and> sorted (map snd calls) \<longrightarrow>
      int (count_within (tb_window bl) t (admitted key calls (tb_trace bl calls)))
        \<le> 2 * tb_limit bl"
    using tb_bound [of bl calls t key] by blast
  show ?thesis
    by (rule conjI [OF sol conjI [OF sw tb]])
qed

text \<open>The sliding windows on the two calls of the example, with \<open>\<epsilon> = 2^-23\<close> (half the
  spacing of the doubles involved): both calls are admitted, and the trailing interval of
  length \<open>window - 2^-23\<close> ending at the second call holds one admission. The token bucket
  on the calls of Scenario D: at most 10 admissions in \<open>(-0.5, 1.5]\<close>.\<close>

theorem trailing_window_bounds_witness:
  "sol_trace_fl fsub_grid
     \<lparr>max_requests = 1, time_window = 3602879701896397 / 36028797018963968,
       requests = Map.empty\<rparr>
     [(''user1'', 1700000000 - 419430 / 4194304), (''user1'', 1700000000)] = [True, True] \<and>
   int (count_within (3602879701896397 / 36028797018963968 - 1 / 8388608) 1700000000
     (admitted ''user1''
       [(''user1'', 1700000000 - 419430 / 4194304), (''user1'', 1700000000)]
       (sol_trace_fl fsub_grid
         \<lparr>max_requests = 1, time_window = 3602879701896397 / 36028797018963968,
           requests = Map.empty\<rparr>
         [(''user1'', 1700000000 - 419430 / 4194304), (''user1'', 1700000000)]))) \<le> 1 \<and>
   int (count_within (3602879701896397 / 36028797018963968 - 1 / 8388608) 1700000000
     (admitted ''user1''
       [(''user1'', 1700000000 - 419430 / 4194304), (''user1'', 1700000000)]
       (sw_trace_fl fsub_grid
         \<lparr>sw_limit = 1, sw_window = 3602879701896397 / 36028797018963968,
           sw_requests = Map.empty\<rparr>
         [(''user1'', 1700000000 - 419430 / 4194304), (''user1'', 1700000000)]))) \<le> 1 \<and>
   int (count_within 2 (3 / 2) (admitted ''user1''
      (replicate 5 (''user1'', 0) @ replicate 5 (''user1'', 3 / 2))
      (tb_trace \<lparr>tb_limit = 5, tb_window = 2, tb_rate = 5 / 2, buckets = Map.empty\<rparr>
        (replicate 5 (''user1'', 0) @ replicate 5 (''user1'', 3 / 2))))) \<le> 2 * 5"
proof -
  have ordered: "sorted (map snd (replicate 5 (''user1'', 0 :: real) @ replicate 5 (''user1'', 3 / 2)))"
    by (simp add: numeral_eq_Suc)
  have ordered': "sorted (map snd [(''user1'', 1700000000 - 419430 / 4194304 :: real),
      (''user1'', 1700000000)])"
    by simp
  have excess: "list_all (\<lambda>c. fsub_grid (snd c) (3602879701896397 / 36028797018963968)
        \<le> snd c - 3602879701896397 / 36028797018963968 + 1 / 8388608)
      [(''user1'', 1700000000 - 419430 / 4194304), (''user1'', 1700000000)]"
    by (simp add: fsub_grid_def round_grid_def)
  have sliding: "int (count_within (3602879701896397 / 36028797018963968 - 1 / 8388608) 1700000000
     (admitted ''user1''
       [(''user1'', 1700000000 - 419430 / 4194304), (''user1'', 1700000000)]
       (sol_trace_fl fsub_grid
         \<lparr>max_requests = 1, time_window = 3602879701896397 / 36028797018963968,
           requests = Map.empty\<rparr>
         [(''user1'', 1700000000 - 419430 / 4194304), (''user1'', 1700000000)]))) \<le> 1 \<and>
   int (count_within (3602879701896397 / 36028797018963968 - 1 / 8388608) 1700000000
     (admitted ''user1''
       [(''user1'', 1700000000 - 419430 / 4194304), (''user1'', 1700000000)]
       (sw_trace_fl fsub_grid
         \<lparr>sw_limit = 1, sw_window = 3602879701896397 / 36028797018963968,
           sw_requests = Map.empty\<rparr>
         [(''user1'', 1700000000 - 419430 / 4194304), (''user1'', 1700000000)]))) \<le> 1"
    using ordered' excess
      trailing_window_bounds [where l = "\<lparr>max_requests = 1,
          time_window = 3602879701896397 / 36028797018963968, requests = Map.empty\<rparr>"
        and wl = "\<lparr>sw_limit = 1, sw_window = 3602879701896397 / 36028797018963968,
          sw_requests = Map.empty\<rparr>"
        and calls = "[(''user1'', 1700000000 - 419430 / 4194304), (''user1'', 1700000000)]"
        and fsub = fsub_grid and \<epsilon> = "1 / 8388608"
        and key = "''user1''" and t = 1700000000]
    by simp
  have bucket: "int (count_within 2 (3 / 2) (admitted ''user1''
      (replicate 5 (''user1'', 0) @ replicate 5 (''user1'', 3 / 2))
      (tb_trace \<lparr>tb_limit = 5, tb_window = 2, tb_rate = 5 / 2, buckets = Map.empty\<rparr>
        (replicate 5 (''user1'', 0) @ replicate 5 (''user1'', 3 / 2))))) \<le> 2 * 5"
    using ordered
      trailing_window_bounds [where
        bl = "\<lparr>tb_limit = 5, tb_window = 2, tb_rate = 5 / 2, buckets = Map.empty\<rparr>"
        and calls = "replicate 5 (''user1'', 0) @ replicate 5 (''user1'', 3 / 2)"
        and key = "''user1''" and t = "3 / 2"]
    by simp
  show ?thesis
    by (rule conjI [OF sol_rounded_cutoff_trace conjI [OF sliding [THEN conjunct1]
      conjI [OF sliding [THEN conjunct2] bucket]]])
qed

end
